theory Spec2Isabelle
  imports Complex_Main "HOL-Library.Word"
begin

section \<open>Status codes, hits and the helper's static state\<close>

text \<open>
  The status codes returned by the functions of \<^verbatim>\<open>CaloHitHelper.cc\<close> (and of its
  sibling \<^verbatim>\<open>Track.cc\<close>).
\<close>

datatype StatusCode =
    STATUS_CODE_SUCCESS
  | STATUS_CODE_FAILURE
  | STATUS_CODE_NOT_FOUND
  | STATUS_CODE_NOT_ALLOWED
  | STATUS_CODE_INVALID_PARAMETER
  | STATUS_CODE_ALREADY_PRESENT
  | STATUS_CODE_ALREADY_INITIALIZED

datatype HitType = ECAL | HCAL | MUON

text \<open>
  A C++ \<^verbatim>\<open>float\<close> is an IEEE 754 binary32 value: a real with a 24-bit significand and an
  exponent from -126 to 127 (subnormals included), an infinity or a NaN. The sign of zero
  is not modelled: in \<^verbatim>\<open>GetDensityWeightContribution\<close> the only divisor that can be zero
  is the square root of a sum of squares, a positive zero.

  Every arithmetic operation returns the exact result rounded to the nearest binary32
  value, ties to even: \<open>float32_round\<close>. A result too small in magnitude rounds to
  zero (underflow) and one too large to an infinity (overflow).
\<close>

datatype float32 = Finite real | PlusInf | MinusInf | NaN

definition round_half_even :: "real \<Rightarrow> int" where
  "round_half_even q =
     (let f = \<lfloor>q\<rfloor> in
        if q - of_int f < 1 / 2 then f
        else if 1 / 2 < q - of_int f then f + 1
        else if even f then f else f + 1)"

text \<open>
  The binary32 values around \<open>x\<close> are the multiples of \<open>ulp\<close>, which is \<open>2\<close> to the
  power \<open>e - 23\<close> for the exponent \<open>e\<close> of \<open>x\<close>, and of the smallest normal number below
  it.
\<close>

definition float32_round :: "real \<Rightarrow> float32" where
  "float32_round x =
     (if x = 0 then Finite 0
      else
        (let e = max \<lfloor>log 2 \<bar>x\<bar>\<rfloor> (- 126);
             ulp = 2 powr (of_int (e - 23));
             y = of_int (round_half_even (x / ulp)) * ulp
         in if 2 ^ 128 \<le> \<bar>y\<bar> then (if 0 < x then PlusInf else MinusInf) else Finite y))"

fun f_neg :: "float32 \<Rightarrow> float32" where
  "f_neg (Finite a) = Finite (- a)"
| "f_neg PlusInf = MinusInf"
| "f_neg MinusInf = PlusInf"
| "f_neg NaN = NaN"

fun f_add :: "float32 \<Rightarrow> float32 \<Rightarrow> float32" where
  "f_add (Finite a) (Finite b) = float32_round (a + b)"
| "f_add NaN y = NaN"
| "f_add x NaN = NaN"
| "f_add PlusInf MinusInf = NaN"
| "f_add MinusInf PlusInf = NaN"
| "f_add PlusInf y = PlusInf"
| "f_add x PlusInf = PlusInf"
| "f_add MinusInf y = MinusInf"
| "f_add x MinusInf = MinusInf"

definition f_sub :: "float32 \<Rightarrow> float32 \<Rightarrow> float32" where
  "f_sub x y = f_add x (f_neg y)"

fun f_mul :: "float32 \<Rightarrow> float32 \<Rightarrow> float32" where
  "f_mul (Finite a) (Finite b) = float32_round (a * b)"
| "f_mul NaN y = NaN"
| "f_mul x NaN = NaN"
| "f_mul (Finite a) PlusInf = (if a = 0 then NaN else if 0 < a then PlusInf else MinusInf)"
| "f_mul (Finite a) MinusInf = (if a = 0 then NaN else if 0 < a then MinusInf else PlusInf)"
| "f_mul PlusInf (Finite b) = (if b = 0 then NaN else if 0 < b then PlusInf else MinusInf)"
| "f_mul MinusInf (Finite b) = (if b = 0 then NaN else if 0 < b then MinusInf else PlusInf)"
| "f_mul PlusInf PlusInf = PlusInf"
| "f_mul MinusInf MinusInf = PlusInf"
| "f_mul PlusInf MinusInf = MinusInf"
| "f_mul MinusInf PlusInf = MinusInf"

fun f_div :: "float32 \<Rightarrow> float32 \<Rightarrow> float32" where
  "f_div (Finite a) (Finite b) =
     (if b = 0 then (if a = 0 then NaN else if 0 < a then PlusInf else MinusInf)
      else float32_round (a / b))"
| "f_div NaN y = NaN"
| "f_div x NaN = NaN"
| "f_div (Finite a) PlusInf = Finite 0"
| "f_div (Finite a) MinusInf = Finite 0"
| "f_div PlusInf (Finite b) = (if 0 \<le> b then PlusInf else MinusInf)"
| "f_div MinusInf (Finite b) = (if 0 \<le> b then MinusInf else PlusInf)"
| "f_div PlusInf y = NaN"
| "f_div MinusInf y = NaN"

fun f_sqrt :: "float32 \<Rightarrow> float32" where
  "f_sqrt (Finite a) = (if a < 0 then NaN else float32_round (sqrt a))"
| "f_sqrt PlusInf = PlusInf"
| "f_sqrt MinusInf = NaN"
| "f_sqrt NaN = NaN"

text \<open>The comparisons \<^verbatim>\<open><\<close> and \<^verbatim>\<open>==\<close>: false as soon as one side is NaN.\<close>

fun f_less :: "float32 \<Rightarrow> float32 \<Rightarrow> bool" where
  "f_less (Finite a) (Finite b) = (a < b)"
| "f_less NaN y = False"
| "f_less x NaN = False"
| "f_less x MinusInf = False"
| "f_less PlusInf y = False"
| "f_less MinusInf y = True"
| "f_less x PlusInf = True"

fun f_eq :: "float32 \<Rightarrow> float32 \<Rightarrow> bool" where
  "f_eq NaN y = False"
| "f_eq x NaN = False"
| "f_eq x y = (x = y)"

definition f_le :: "float32 \<Rightarrow> float32 \<Rightarrow> bool" where
  "f_le x y = (f_less x y \<or> f_eq x y)"

text \<open>The values that are not below zero: the non-negative reals and the positive infinity.\<close>

fun f_nonneg :: "float32 \<Rightarrow> bool" where
  "f_nonneg (Finite a) = (0 \<le> a)"
| "f_nonneg PlusInf = True"
| "f_nonneg MinusInf = False"
| "f_nonneg NaN = False"

text \<open>The class \<^verbatim>\<open>CartesianVector\<close> with the member functions the helper calls.\<close>

record CartesianVector =
  m_x :: float32
  m_y :: float32
  m_z :: float32

definition GetMagnitudeSquared :: "CartesianVector \<Rightarrow> float32" where
  "GetMagnitudeSquared v =
     f_add (f_add (f_mul (m_x v) (m_x v)) (f_mul (m_y v) (m_y v))) (f_mul (m_z v) (m_z v))"

definition GetMagnitude :: "CartesianVector \<Rightarrow> float32" where
  "GetMagnitude v = f_sqrt (GetMagnitudeSquared v)"

definition GetCrossProduct :: "CartesianVector \<Rightarrow> CartesianVector \<Rightarrow> CartesianVector" where
  "GetCrossProduct v rhs =
     \<lparr> m_x = f_sub (f_mul (m_y v) (m_z rhs)) (f_mul (m_y rhs) (m_z v)),
       m_y = f_sub (f_mul (m_z v) (m_x rhs)) (f_mul (m_z rhs) (m_x v)),
       m_z = f_sub (f_mul (m_x v) (m_y rhs)) (f_mul (m_x rhs) (m_y v)) \<rparr>"

definition vector_minus :: "CartesianVector \<Rightarrow> CartesianVector \<Rightarrow> CartesianVector" where
  "vector_minus lhs rhs =
     \<lparr> m_x = f_sub (m_x lhs) (m_x rhs),
       m_y = f_sub (m_y lhs) (m_y rhs),
       m_z = f_sub (m_z lhs) (m_z rhs) \<rparr>"

text \<open>
  Modelled from the spec: the declaration of class \<^verbatim>\<open>CaloHit\<close> (Objects/CaloHit.h) is
  not among the sources. Only \<^verbatim>\<open>m_isAvailable\<close> is named in \<^verbatim>\<open>CaloHitHelper.cc\<close>; the
  other fields are the ones the helper reads and writes through accessors
  (\<^verbatim>\<open>GetPositionVector\<close>, \<^verbatim>\<open>GetHitType\<close>, \<^verbatim>\<open>GetDensityWeight\<close>, \<^verbatim>\<open>SetIsolatedFlag\<close>,
  \<^verbatim>\<open>SetPossibleMipFlag\<close>, \<^verbatim>\<open>AddSurroundingEnergy\<close>), listed in the data model of the spec.
\<close>

record CaloHit =
  m_positionVector :: CartesianVector
  m_hitType :: HitType
  m_isAvailable :: bool
  m_densityWeight :: float32
  m_surroundingEnergy :: float32
  m_isIsolated :: bool
  m_isPossibleMip :: bool

text \<open>
  A \<^verbatim>\<open>CaloHit*\<close> is an address; hits are owned elsewhere and every address the helper is
  handed holds a hit, so the hit memory is a total function. A \<^verbatim>\<open>CaloHitList\<close> is a
  \<^verbatim>\<open>std::set<CaloHit*>\<close>, written as the list of its elements in iteration order; an
  \<^verbatim>\<open>OrderedCaloHitList\<close> maps a pseudolayer to its hit list, again in iteration order.
\<close>

type_synonym CaloHitPtr = nat
type_synonym CaloHitList = "CaloHitPtr list"
type_synonym OrderedCaloHitList = "(nat \<times> CaloHitList) list"

text \<open>
  A \<^verbatim>\<open>CaloHitUsageMap\<close> is a \<^verbatim>\<open>std::map<CaloHit*, bool>\<close>: its entries in iteration
  order, which is the order of the keys. Usage maps live on the heap (\<^verbatim>\<open>new\<close> and
  \<^verbatim>\<open>delete\<close>) and are shared between the registry, the current pointer and the parent
  stack, so the state carries an explicit heap: cell \<open>a\<close> of the list is the object at
  address \<open>a\<close>, \<open>None\<close> once it has been deleted. \<^verbatim>\<open>new\<close> appends a cell, so an address
  is never handed out twice. A pointer is \<open>None\<close> (\<^verbatim>\<open>NULL\<close>) or \<open>Some\<close> address.
\<close>

type_synonym CaloHitUsageMap = "(CaloHitPtr \<times> bool) list"
type_synonym UsageMapPtr = "nat option"
type_synonym UsageMapHeap = "CaloHitUsageMap option list"

record CaloHitHelper =
  m_nReclusteringProcesses :: "32 word"
  m_pCurrentUsageMap :: UsageMapPtr
  m_parentCaloHitUsageMaps :: "UsageMapPtr list"
  m_nestedUsageMapNames :: "string list list"
  m_nameToCaloHitUsageMap :: "(string \<times> UsageMapPtr) list"
  usageMapHeap :: UsageMapHeap
  caloHits :: "CaloHitPtr \<Rightarrow> CaloHit"

text \<open>
  Dereferencing a null or dangling pointer, and \<^verbatim>\<open>back()\<close> on an empty vector, are
  undefined behaviour: the functions below then return \<open>None\<close>.
\<close>

definition heap_get :: "UsageMapHeap \<Rightarrow> nat \<Rightarrow> CaloHitUsageMap option" where
  "heap_get h a = (if a < length h then h ! a else None)"

definition deref :: "UsageMapHeap \<Rightarrow> UsageMapPtr \<Rightarrow> CaloHitUsageMap option" where
  "deref h p = (case p of None \<Rightarrow> None | Some a \<Rightarrow> heap_get h a)"

definition heap_new :: "UsageMapHeap \<Rightarrow> CaloHitUsageMap \<Rightarrow> UsageMapHeap \<times> nat" where
  "heap_new h m = (h @ [Some m], length h)"

text \<open>\<^verbatim>\<open>delete p\<close>: nothing for \<^verbatim>\<open>NULL\<close>, undefined for an address that holds no object.\<close>

definition heap_delete :: "UsageMapHeap \<Rightarrow> UsageMapPtr \<Rightarrow> UsageMapHeap option" where
  "heap_delete h p =
     (case p of
        None \<Rightarrow> Some h
      | Some a \<Rightarrow> (case heap_get h a of None \<Rightarrow> None | Some m \<Rightarrow> Some (h[a := None])))"

text \<open>\<^verbatim>\<open>iter->second = v\<close> for the entry found under key \<open>k\<close>.\<close>

fun usage_assign :: "CaloHitPtr \<Rightarrow> bool \<Rightarrow> CaloHitUsageMap \<Rightarrow> CaloHitUsageMap" where
  "usage_assign k v [] = []"
| "usage_assign k v ((k', b) # m) =
     (if k' = k then (k', v) # m else (k', b) # usage_assign k v m)"

text \<open>\<^verbatim>\<open>std::map::insert\<close>: the map and whether the entry went in (the key was new).\<close>

definition usage_insert :: "CaloHitPtr \<Rightarrow> bool \<Rightarrow> CaloHitUsageMap \<Rightarrow> CaloHitUsageMap \<times> bool" where
  "usage_insert k v m =
     (case map_of m k of
        Some b \<Rightarrow> (m, False)
      | None \<Rightarrow> (insort_key fst (k, v) m, True))"

section \<open>Availability queries and updates\<close>

definition IsCaloHitAvailable :: "CaloHitHelper \<Rightarrow> CaloHitPtr \<Rightarrow> bool option" where
  "IsCaloHitAvailable s pCaloHit =
     (if m_nReclusteringProcesses s = 0 then Some (m_isAvailable (caloHits s pCaloHit))
      else
        (case deref (usageMapHeap s) (m_pCurrentUsageMap s) of
           None \<Rightarrow> None
         | Some usageMap \<Rightarrow>
             (case map_of usageMap pCaloHit of
                None \<Rightarrow> Some False
              | Some second \<Rightarrow> if \<not> second then Some False else Some True)))"

definition SetCaloHitAvailability ::
  "CaloHitHelper \<Rightarrow> CaloHitPtr \<Rightarrow> bool \<Rightarrow> (StatusCode \<times> CaloHitHelper) option" where
  "SetCaloHitAvailability s pCaloHit isAvailable =
     (if m_nReclusteringProcesses s = 0 then
        Some (STATUS_CODE_SUCCESS,
              s\<lparr>caloHits := (caloHits s)(pCaloHit := (caloHits s pCaloHit)\<lparr>m_isAvailable := isAvailable\<rparr>)\<rparr>)
      else
        (case m_pCurrentUsageMap s of
           None \<Rightarrow> None
         | Some a \<Rightarrow>
             (case heap_get (usageMapHeap s) a of
                None \<Rightarrow> None
              | Some usageMap \<Rightarrow>
                  (case map_of usageMap pCaloHit of
                     None \<Rightarrow> Some (STATUS_CODE_NOT_FOUND, s)
                   | Some second \<Rightarrow>
                       Some (STATUS_CODE_SUCCESS,
                             s\<lparr>usageMapHeap :=
                                 (usageMapHeap s)[a := Some (usage_assign pCaloHit isAvailable usageMap)]\<rparr>)))))"

text \<open>The two loops of the list overload: over the hits themselves at depth 0, ...\<close>

fun set_all_flags :: "CaloHitList \<Rightarrow> bool \<Rightarrow> (CaloHitPtr \<Rightarrow> CaloHit) \<Rightarrow> (CaloHitPtr \<Rightarrow> CaloHit)" where
  "set_all_flags [] isAvailable hits = hits"
| "set_all_flags (h # rest) isAvailable hits =
     set_all_flags rest isAvailable (hits(h := (hits h)\<lparr>m_isAvailable := isAvailable\<rparr>))"

text \<open>... and over the entries of the current usage map otherwise, stopping at the first miss.\<close>

fun set_usage_loop ::
  "CaloHitHelper \<Rightarrow> CaloHitList \<Rightarrow> bool \<Rightarrow> (StatusCode \<times> CaloHitHelper) option" where
  "set_usage_loop s [] isAvailable = Some (STATUS_CODE_SUCCESS, s)"
| "set_usage_loop s (h # rest) isAvailable =
     (case m_pCurrentUsageMap s of
        None \<Rightarrow> None
      | Some a \<Rightarrow>
          (case heap_get (usageMapHeap s) a of
             None \<Rightarrow> None
           | Some usageMap \<Rightarrow>
               (case map_of usageMap h of
                  None \<Rightarrow> Some (STATUS_CODE_NOT_FOUND, s)
                | Some second \<Rightarrow>
                    set_usage_loop
                      (s\<lparr>usageMapHeap := (usageMapHeap s)[a := Some (usage_assign h isAvailable usageMap)]\<rparr>)
                      rest isAvailable)))"

definition SetCaloHitAvailability_list ::
  "CaloHitHelper \<Rightarrow> CaloHitList \<Rightarrow> bool \<Rightarrow> (StatusCode \<times> CaloHitHelper) option" where
  "SetCaloHitAvailability_list s caloHitList isAvailable =
     (if m_nReclusteringProcesses s = 0 then
        Some (STATUS_CODE_SUCCESS, s\<lparr>caloHits := set_all_flags caloHitList isAvailable (caloHits s)\<rparr>)
      else set_usage_loop s caloHitList isAvailable)"

text \<open>\<^verbatim>\<open>std::set::insert\<close> on a \<^verbatim>\<open>CaloHitList\<close>.\<close>

definition hit_list_insert :: "CaloHitPtr \<Rightarrow> CaloHitList \<Rightarrow> CaloHitList" where
  "hit_list_insert h hitList = (if h \<in> set hitList then hitList else insort h hitList)"

text \<open>
  The loops of \<^verbatim>\<open>RemoveUnavailableCaloHits(OrderedCaloHitList&)\<close> that collect the
  unavailable hits: over the hits of a layer, and over the layers.
\<close>

fun collect_unavailable_hits ::
  "CaloHitHelper \<Rightarrow> CaloHitList \<Rightarrow> CaloHitList \<Rightarrow> CaloHitList option" where
  "collect_unavailable_hits s [] unavailableHits = Some unavailableHits"
| "collect_unavailable_hits s (h # rest) unavailableHits =
     (case IsCaloHitAvailable s h of
        None \<Rightarrow> None
      | Some available \<Rightarrow>
          collect_unavailable_hits s rest
            (if \<not> available then hit_list_insert h unavailableHits else unavailableHits))"

fun collect_unavailable_layers ::
  "CaloHitHelper \<Rightarrow> OrderedCaloHitList \<Rightarrow> CaloHitList \<Rightarrow> CaloHitList option" where
  "collect_unavailable_layers s [] unavailableHits = Some unavailableHits"
| "collect_unavailable_layers s ((pseudoLayer, hitList) # layers) unavailableHits =
     (case collect_unavailable_hits s hitList unavailableHits of
        None \<Rightarrow> None
      | Some unavailableHits' \<Rightarrow> collect_unavailable_layers s layers unavailableHits')"

text \<open>
  \<^verbatim>\<open>OrderedCaloHitList::Remove\<close> is not among the sources: it is the parameter \<open>remove\<close>,
  from the hits to discard and the layer index to a status code and the layer index it
  leaves.
\<close>

definition RemoveUnavailableCaloHits ::
  "(CaloHitList \<Rightarrow> OrderedCaloHitList \<Rightarrow> StatusCode \<times> OrderedCaloHitList) \<Rightarrow>
   CaloHitHelper \<Rightarrow> OrderedCaloHitList \<Rightarrow> (StatusCode \<times> OrderedCaloHitList) option" where
  "RemoveUnavailableCaloHits remove s orderedCaloHitList =
     (case collect_unavailable_layers s orderedCaloHitList [] of
        None \<Rightarrow> None
      | Some unavailableHits \<Rightarrow>
          if unavailableHits \<noteq> [] then
            (case remove unavailableHits orderedCaloHitList of
               (rc, orderedCaloHitList') \<Rightarrow>
                 if rc \<noteq> STATUS_CODE_SUCCESS then Some (rc, orderedCaloHitList')
                 else Some (STATUS_CODE_SUCCESS, orderedCaloHitList'))
          else Some (STATUS_CODE_SUCCESS, orderedCaloHitList))"

text \<open>
  Modelled from the spec: \<^verbatim>\<open>OrderedCaloHitList::Remove(const CaloHitList &)\<close>
  (Objects/OrderedCaloHitList.cc) is missing. The spec describes it as a removal operation
  accepting a set of hits to discard, returning a success or failure signal: here it takes
  the hits out of every layer and succeeds.
\<close>

definition OrderedCaloHitList_Remove ::
  "CaloHitList \<Rightarrow> OrderedCaloHitList \<Rightarrow> StatusCode \<times> OrderedCaloHitList" where
  "OrderedCaloHitList_Remove discard orderedCaloHitList =
     (STATUS_CODE_SUCCESS,
      map (\<lambda>(pseudoLayer, hitList). (pseudoLayer, filter (\<lambda>h. h \<notin> set discard) hitList))
          orderedCaloHitList)"

text \<open>All hits of a layer index.\<close>

definition hits_of :: "OrderedCaloHitList \<Rightarrow> CaloHitPtr set" where
  "hits_of orderedCaloHitList = set (concat (map snd orderedCaloHitList))"

section \<open>The usage-map manager\<close>

text \<open>The static initialisers at the top of \<^verbatim>\<open>CaloHitHelper.cc\<close>, over a given hit memory.\<close>

definition initialCaloHitHelper :: "(CaloHitPtr \<Rightarrow> CaloHit) \<Rightarrow> CaloHitHelper" where
  "initialCaloHitHelper hits =
     \<lparr> m_nReclusteringProcesses = 0,
       m_pCurrentUsageMap = None,
       m_parentCaloHitUsageMaps = [],
       m_nestedUsageMapNames = [],
       m_nameToCaloHitUsageMap = [],
       usageMapHeap = [],
       caloHits = hits \<rparr>"

text \<open>
  The seeding loops of \<^verbatim>\<open>CreateInitialCaloHitUsageMap\<close>: the inner one over the hits of a
  layer, the outer one over the layers. An insertion that finds its key returns
  \<^verbatim>\<open>STATUS_CODE_FAILURE\<close> at once.
\<close>

fun seed_hits :: "CaloHitHelper \<Rightarrow> CaloHitList \<Rightarrow> (StatusCode \<times> CaloHitHelper) option" where
  "seed_hits s [] = Some (STATUS_CODE_SUCCESS, s)"
| "seed_hits s (h # rest) =
     (case m_pCurrentUsageMap s of
        None \<Rightarrow> None
      | Some a \<Rightarrow>
          (case heap_get (usageMapHeap s) a of
             None \<Rightarrow> None
           | Some usageMap \<Rightarrow>
               (case usage_insert h False usageMap of
                  (usageMap', inserted) \<Rightarrow>
                    if \<not> inserted then Some (STATUS_CODE_FAILURE, s)
                    else seed_hits (s\<lparr>usageMapHeap := (usageMapHeap s)[a := Some usageMap']\<rparr>) rest)))"

fun seed_layers :: "CaloHitHelper \<Rightarrow> OrderedCaloHitList \<Rightarrow> (StatusCode \<times> CaloHitHelper) option" where
  "seed_layers s [] = Some (STATUS_CODE_SUCCESS, s)"
| "seed_layers s ((pseudoLayer, hitList) # layers) =
     (case seed_hits s hitList of
        None \<Rightarrow> None
      | Some (rc, s') \<Rightarrow> if rc \<noteq> STATUS_CODE_SUCCESS then Some (rc, s') else seed_layers s' layers)"

text \<open>
  The registry \<^verbatim>\<open>m_nameToCaloHitUsageMap\<close> is a \<^verbatim>\<open>std::map\<close> from names to pointers. It
  is searched by name, erased by name and walked once to delete every map, so its entries
  are kept in insertion order.
\<close>

definition CreateInitialCaloHitUsageMap ::
  "CaloHitHelper \<Rightarrow> string \<Rightarrow> OrderedCaloHitList \<Rightarrow> (StatusCode \<times> CaloHitHelper) option" where
  "CreateInitialCaloHitUsageMap s usageMapName pOrderedCaloHitList =
     (let s1 = (if 0 < m_nReclusteringProcesses s
                then s\<lparr>m_parentCaloHitUsageMaps := m_parentCaloHitUsageMaps s @ [m_pCurrentUsageMap s]\<rparr>
                else s)
               \<lparr>m_nReclusteringProcesses := m_nReclusteringProcesses s + 1\<rparr>;
          (heap', a) = heap_new (usageMapHeap s1) [];
          s2 = s1\<lparr>m_pCurrentUsageMap := Some a, usageMapHeap := heap'\<rparr>
      in
        (case map_of (m_nameToCaloHitUsageMap s2) usageMapName of
           Some p \<Rightarrow> Some (STATUS_CODE_FAILURE, s2)
         | None \<Rightarrow>
             (let s3 = s2\<lparr>m_nameToCaloHitUsageMap :=
                           m_nameToCaloHitUsageMap s2 @ [(usageMapName, Some a)]\<rparr>
              in
                (case seed_layers s3 pOrderedCaloHitList of
                   None \<Rightarrow> None
                 | Some (rc, s4) \<Rightarrow>
                     if rc \<noteq> STATUS_CODE_SUCCESS then Some (rc, s4)
                     else Some (STATUS_CODE_SUCCESS,
                                s4\<lparr>m_nestedUsageMapNames :=
                                     m_nestedUsageMapNames s4 @ [[usageMapName]]\<rparr>)))))"

definition CreateAdditionalCaloHitUsageMap ::
  "CaloHitHelper \<Rightarrow> string \<Rightarrow> (StatusCode \<times> CaloHitHelper) option" where
  "CreateAdditionalCaloHitUsageMap s usageMapName =
     (if m_nReclusteringProcesses s = 0 then Some (STATUS_CODE_NOT_ALLOWED, s)
      else
        (case deref (usageMapHeap s) (m_pCurrentUsageMap s) of
           None \<Rightarrow> None
         | Some currentMap \<Rightarrow>
             (let (heap', a) = heap_new (usageMapHeap s) currentMap;
                  s1 = s\<lparr>usageMapHeap := heap'\<rparr>
              in
                (case map_of (m_nameToCaloHitUsageMap s1) usageMapName of
                   Some p \<Rightarrow> Some (STATUS_CODE_FAILURE, s1)
                 | None \<Rightarrow>
                     (let s2 = s1\<lparr>m_nameToCaloHitUsageMap :=
                                   m_nameToCaloHitUsageMap s1 @ [(usageMapName, Some a)],
                                 usageMapHeap :=
                                   heap'[a := Some (map (\<lambda>(k, second). (k, True)) currentMap)],
                                 m_pCurrentUsageMap := Some a\<rparr>
                      in
                        (case m_nestedUsageMapNames s2 of
                           [] \<Rightarrow> None
                         | level # levels \<Rightarrow>
                             Some (STATUS_CODE_SUCCESS,
                                   s2\<lparr>m_nestedUsageMapNames :=
                                        butlast (m_nestedUsageMapNames s2) @
                                        [last (m_nestedUsageMapNames s2) @ [usageMapName]]\<rparr>)))))))"

text \<open>The first loop of \<^verbatim>\<open>ClearCaloHitUsageMaps\<close>: delete every registered map.\<close>

fun delete_all :: "UsageMapHeap \<Rightarrow> UsageMapPtr list \<Rightarrow> UsageMapHeap option" where
  "delete_all h [] = Some h"
| "delete_all h (p # ps) =
     (case heap_delete h p of None \<Rightarrow> None | Some h' \<Rightarrow> delete_all h' ps)"

definition ClearCaloHitUsageMaps :: "CaloHitHelper \<Rightarrow> (StatusCode \<times> CaloHitHelper) option" where
  "ClearCaloHitUsageMaps s =
     (case delete_all (usageMapHeap s) (map snd (m_nameToCaloHitUsageMap s)) of
        None \<Rightarrow> None
      | Some heap' \<Rightarrow>
          (let s1 = s\<lparr>usageMapHeap := heap',
                      m_nameToCaloHitUsageMap := [],
                      m_parentCaloHitUsageMaps := [],
                      m_nestedUsageMapNames := []\<rparr>
           in
             if m_nameToCaloHitUsageMap s1 \<noteq> [] \<or> m_parentCaloHitUsageMaps s1 \<noteq> [] \<or>
                m_nestedUsageMapNames s1 \<noteq> []
             then Some (STATUS_CODE_FAILURE, s1)
             else Some (STATUS_CODE_SUCCESS,
                        s1\<lparr>m_pCurrentUsageMap := None, m_nReclusteringProcesses := 0\<rparr>)))"

text \<open>The loop of \<^verbatim>\<open>ClearMostRecentCaloHitUsageMaps\<close> over the names of the last level.\<close>

fun clear_names :: "CaloHitHelper \<Rightarrow> string list \<Rightarrow> (StatusCode \<times> CaloHitHelper) option" where
  "clear_names s [] = Some (STATUS_CODE_SUCCESS, s)"
| "clear_names s (name # rest) =
     (case map_of (m_nameToCaloHitUsageMap s) name of
        None \<Rightarrow> Some (STATUS_CODE_NOT_FOUND, s)
      | Some p \<Rightarrow>
          (case heap_delete (usageMapHeap s) p of
             None \<Rightarrow> None
           | Some heap' \<Rightarrow>
               clear_names
                 (s\<lparr>usageMapHeap := heap',
                    m_nameToCaloHitUsageMap :=
                      filter (\<lambda>entry. fst entry \<noteq> name) (m_nameToCaloHitUsageMap s)\<rparr>)
                 rest))"

definition ClearMostRecentCaloHitUsageMaps ::
  "CaloHitHelper \<Rightarrow> (StatusCode \<times> CaloHitHelper) option" where
  "ClearMostRecentCaloHitUsageMaps s =
     (case m_nestedUsageMapNames s of
        [] \<Rightarrow> None
      | level # levels \<Rightarrow>
          (case clear_names s (last (m_nestedUsageMapNames s)) of
             None \<Rightarrow> None
           | Some (rc, s1) \<Rightarrow>
               if rc \<noteq> STATUS_CODE_SUCCESS then Some (rc, s1)
               else Some (STATUS_CODE_SUCCESS,
                          s1\<lparr>m_nestedUsageMapNames := butlast (m_nestedUsageMapNames s1)\<rparr>)))"

text \<open>The two loops of \<^verbatim>\<open>ApplyCaloHitUsageMap\<close> over the entries of the named map: onto
  the hits themselves when the last scope closes, ...\<close>

fun write_back :: "CaloHitUsageMap \<Rightarrow> (CaloHitPtr \<Rightarrow> CaloHit) \<Rightarrow> (CaloHitPtr \<Rightarrow> CaloHit)" where
  "write_back [] hits = hits"
| "write_back ((first, second) # rest) hits =
     write_back rest (hits(first := (hits first)\<lparr>m_isAvailable := second\<rparr>))"

text \<open>... and into the map that has just become current again otherwise.\<close>

fun merge_into_current ::
  "CaloHitHelper \<Rightarrow> CaloHitUsageMap \<Rightarrow> (StatusCode \<times> CaloHitHelper) option" where
  "merge_into_current s [] = Some (STATUS_CODE_SUCCESS, s)"
| "merge_into_current s ((first, second) # rest) =
     (case m_pCurrentUsageMap s of
        None \<Rightarrow> None
      | Some c \<Rightarrow>
          (case heap_get (usageMapHeap s) c of
             None \<Rightarrow> None
           | Some currentMap \<Rightarrow>
               (case map_of currentMap first of
                  None \<Rightarrow> Some (STATUS_CODE_FAILURE, s)
                | Some old \<Rightarrow>
                    merge_into_current
                      (s\<lparr>usageMapHeap :=
                           (usageMapHeap s)[c := Some (usage_assign first second currentMap)]\<rparr>)
                      rest)))"

definition ApplyCaloHitUsageMap ::
  "CaloHitHelper \<Rightarrow> string \<Rightarrow> (StatusCode \<times> CaloHitHelper) option" where
  "ApplyCaloHitUsageMap s usageMapName =
     (if m_nReclusteringProcesses s = 0 then Some (STATUS_CODE_NOT_ALLOWED, s)
      else
        (case map_of (m_nameToCaloHitUsageMap s) usageMapName of
           None \<Rightarrow> Some (STATUS_CODE_NOT_FOUND, s)
         | Some p \<Rightarrow>
             (let s1 = s\<lparr>m_nReclusteringProcesses := m_nReclusteringProcesses s - 1\<rparr> in
                if m_nReclusteringProcesses s = 1 then
                  (case deref (usageMapHeap s1) p of
                     None \<Rightarrow> None
                   | Some usageMap \<Rightarrow>
                       (case ClearCaloHitUsageMaps
                               (s1\<lparr>caloHits := write_back usageMap (caloHits s1)\<rparr>) of
                          None \<Rightarrow> None
                        | Some (rc, s2) \<Rightarrow>
                            if rc \<noteq> STATUS_CODE_SUCCESS then Some (rc, s2)
                            else Some (STATUS_CODE_SUCCESS, s2)))
                else
                  (case m_parentCaloHitUsageMaps s1 of
                     [] \<Rightarrow> None
                   | parent # parents \<Rightarrow>
                       (let s2 = s1\<lparr>m_pCurrentUsageMap := last (m_parentCaloHitUsageMaps s1),
                                   m_parentCaloHitUsageMaps := butlast (m_parentCaloHitUsageMaps s1)\<rparr>
                        in
                          (case deref (usageMapHeap s2) p of
                             None \<Rightarrow> None
                           | Some usageMap \<Rightarrow>
                               (case merge_into_current s2 usageMap of
                                  None \<Rightarrow> None
                                | Some (rc, s3) \<Rightarrow>
                                    if rc \<noteq> STATUS_CODE_SUCCESS then Some (rc, s3)
                                    else
                                      (case ClearMostRecentCaloHitUsageMaps s3 of
                                         None \<Rightarrow> None
                                       | Some (rc', s4) \<Rightarrow>
                                           if rc' \<noteq> STATUS_CODE_SUCCESS then Some (rc', s4)
                                           else Some (STATUS_CODE_SUCCESS, s4)))))))))"

section \<open>Hit properties\<close>

text \<open>
  Modelled from the spec: the class \<^verbatim>\<open>PandoraSettings\<close> (Pandora/PandoraSettings.h) is
  not among the sources. The helper reads it once into function-local constants; the
  values it reads are the fields of this record, the \<^verbatim>\<open>unsigned int\<close> power as its
  value.
\<close>

record PandoraSettings =
  m_caloHitMaxSeparation :: float32
  m_densityWeightPower :: nat
  m_isolationDensityWeightCutECal :: float32
  m_isolationDensityWeightCutHCal :: float32

text \<open>The local constant \<^verbatim>\<open>isolationDensityWeightCut\<close> of \<^verbatim>\<open>ApplySimpleIsolationScheme\<close>.\<close>

definition isolationDensityWeightCut :: "PandoraSettings \<Rightarrow> CaloHit \<Rightarrow> float32" where
  "isolationDensityWeightCut settings hit =
     (if ECAL = m_hitType hit then m_isolationDensityWeightCutECal settings
      else m_isolationDensityWeightCutHCal settings)"

text \<open>A \<^verbatim>\<open>CaloHitVector\<close> is a \<^verbatim>\<open>std::vector<CaloHit*>\<close>: a list, repetitions allowed.\<close>

fun ApplySimpleIsolationScheme ::
  "PandoraSettings \<Rightarrow> CaloHitPtr list \<Rightarrow> (CaloHitPtr \<Rightarrow> CaloHit) \<Rightarrow> (CaloHitPtr \<Rightarrow> CaloHit)" where
  "ApplySimpleIsolationScheme settings [] hits = hits"
| "ApplySimpleIsolationScheme settings (pCaloHit # rest) hits =
     ApplySimpleIsolationScheme settings rest
       (if f_less (m_densityWeight (hits pCaloHit))
                  (isolationDensityWeightCut settings (hits pCaloHit))
        then hits(pCaloHit := (hits pCaloHit)\<lparr>m_isIsolated := True\<rparr>)
        else hits)"

text \<open>
  The inner loop of \<^verbatim>\<open>GetDensityWeightContribution\<close>: \<^verbatim>\<open>rN\<close> after
  \<^verbatim>\<open>densityWeightPower\<close> multiplications by \<^verbatim>\<open>r\<close>.
\<close>

fun power_loop :: "nat \<Rightarrow> float32 \<Rightarrow> float32 \<Rightarrow> float32" where
  "power_loop 0 r rN = rN"
| "power_loop (Suc i) r rN = power_loop i r (f_mul rN r)"

text \<open>
  The outer loop, with the running sum as accumulator. The exception
  \<^verbatim>\<open>StatusCodeException(STATUS_CODE_FAILURE)\<close> is the left summand of the result.
\<close>

fun density_loop ::
  "PandoraSettings \<Rightarrow> (CaloHitPtr \<Rightarrow> CaloHit) \<Rightarrow> CaloHitPtr \<Rightarrow> CaloHitList \<Rightarrow> float32 \<Rightarrow>
   StatusCode + float32" where
  "density_loop settings hits pCaloHit [] densityWeightContribution =
     Inr densityWeightContribution"
| "density_loop settings hits pCaloHit (other # rest) densityWeightContribution =
     (if pCaloHit = other then
        density_loop settings hits pCaloHit rest densityWeightContribution
      else
        (let positionVector = m_positionVector (hits pCaloHit);
             positionMagnitude = GetMagnitude positionVector;
             caloHitMaxSeparationSquared =
               f_mul (m_caloHitMaxSeparation settings) (m_caloHitMaxSeparation settings);
             positionDifference = vector_minus positionVector (m_positionVector (hits other))
         in
           if f_less caloHitMaxSeparationSquared (GetMagnitudeSquared positionDifference) then
             density_loop settings hits pCaloHit rest densityWeightContribution
           else
             (let crossProduct = GetCrossProduct positionVector positionDifference;
                  r = f_div (GetMagnitude crossProduct) positionMagnitude;
                  rN = power_loop (m_densityWeightPower settings) r (Finite 1)
              in
                if f_eq (Finite 0) rN then Inl STATUS_CODE_FAILURE
                else density_loop settings hits pCaloHit rest
                       (f_add densityWeightContribution (f_div (Finite 100) rN)))))"

definition GetDensityWeightContribution ::
  "PandoraSettings \<Rightarrow> (CaloHitPtr \<Rightarrow> CaloHit) \<Rightarrow> CaloHitPtr \<Rightarrow> CaloHitList \<Rightarrow> StatusCode + float32" where
  "GetDensityWeightContribution settings hits pCaloHit pCaloHitList =
     density_loop settings hits pCaloHit pCaloHitList (Finite 0)"

section \<open>Sample inputs\<close>

definition sampleHit :: CaloHit where
  "sampleHit =
     \<lparr> m_positionVector = \<lparr> m_x = Finite 1, m_y = Finite 0, m_z = Finite 0 \<rparr>,
       m_hitType = ECAL,
       m_isAvailable = True,
       m_densityWeight = Finite 0,
       m_surroundingEnergy = Finite 0,
       m_isIsolated = False,
       m_isPossibleMip = False \<rparr>"

text \<open>One open scope whose usage map, at address 0, holds hit 1 (used) and hit 2 (free).\<close>

definition sampleHelper1 :: CaloHitHelper where
  "sampleHelper1 =
     \<lparr> m_nReclusteringProcesses = 1,
       m_pCurrentUsageMap = Some 0,
       m_parentCaloHitUsageMaps = [],
       m_nestedUsageMapNames = [[''first'']],
       m_nameToCaloHitUsageMap = [(''first'', Some 0)],
       usageMapHeap = [Some [(1, False), (2, True)]],
       caloHits = (\<lambda>h. sampleHit) \<rparr>"

text \<open>
  The sibling scenario of the spec, from the initial state: an initial usage map \<open>h0\<close>
  seeded with the hits \<open>A\<close> and \<open>B\<close> of one layer (a \<^verbatim>\<open>std::set\<close>, walked in address
  order), an additional map \<open>h1\<close>, \<open>A\<close> set unavailable, \<open>h1\<close> applied; and then the
  attempt to apply \<open>h0\<close>.
\<close>

definition siblingScenario ::
  "(CaloHitPtr \<Rightarrow> CaloHit) \<Rightarrow> CaloHitPtr \<Rightarrow> CaloHitPtr \<Rightarrow> (StatusCode \<times> CaloHitHelper) option" where
  "siblingScenario hits A B =
     (case CreateInitialCaloHitUsageMap (initialCaloHitHelper hits) ''h0'' [(0, insort A [B])] of
        Some (STATUS_CODE_SUCCESS, s1) \<Rightarrow>
          (case CreateAdditionalCaloHitUsageMap s1 ''h1'' of
             Some (STATUS_CODE_SUCCESS, s2) \<Rightarrow>
               (case SetCaloHitAvailability s2 A False of
                  Some (STATUS_CODE_SUCCESS, s3) \<Rightarrow> ApplyCaloHitUsageMap s3 ''h1''
                | _ \<Rightarrow> None)
           | _ \<Rightarrow> None)
      | _ \<Rightarrow> None)"

definition siblingScenarioThenApply ::
  "(CaloHitPtr \<Rightarrow> CaloHit) \<Rightarrow> CaloHitPtr \<Rightarrow> CaloHitPtr \<Rightarrow> (StatusCode \<times> CaloHitHelper) option" where
  "siblingScenarioThenApply hits A B =
     (case siblingScenario hits A B of
        Some (rc, s4) \<Rightarrow> ApplyCaloHitUsageMap s4 ''h0''
      | None \<Rightarrow> None)"

text \<open>
  Two scopes open: \<open>root\<close> over hit 1 and its sibling \<open>branch\<close> at the first level, and
  at the second level \<open>child\<close> with the given usage map, \<open>branch\<close> being its parent.
\<close>

definition sampleHelper2 :: "CaloHitUsageMap \<Rightarrow> CaloHitHelper" where
  "sampleHelper2 childMap =
     \<lparr> m_nReclusteringProcesses = 2,
       m_pCurrentUsageMap = Some 2,
       m_parentCaloHitUsageMaps = [Some 1],
       m_nestedUsageMapNames = [[''root'', ''branch''], [''child'']],
       m_nameToCaloHitUsageMap = [(''root'', Some 0), (''branch'', Some 1), (''child'', Some 2)],
       usageMapHeap = [Some [(1, False)], Some [(1, True)], Some childMap],
       caloHits = (\<lambda>h. sampleHit) \<rparr>"

text \<open>
  Settings with the given density-weight power, and a hit memory in which hit 1 is an
  isolated ECal hit of density weight 7 and every other hit has density weight 1; all
  hits share the position \<open>(1, 0, 0)\<close>. A second memory has every hit at the origin.
\<close>

definition sampleSettings :: "nat \<Rightarrow> PandoraSettings" where
  "sampleSettings k =
     \<lparr> m_caloHitMaxSeparation = Finite 100,
       m_densityWeightPower = k,
       m_isolationDensityWeightCutECal = Finite 5,
       m_isolationDensityWeightCutHCal = Finite 3 \<rparr>"

definition sampleHits :: "CaloHitPtr \<Rightarrow> CaloHit" where
  "sampleHits h =
     (if h = 1 then sampleHit\<lparr>m_densityWeight := Finite 7, m_isIsolated := True\<rparr>
      else sampleHit\<lparr>m_densityWeight := Finite 1\<rparr>)"

text \<open>A third memory has every hit at \<open>(1 / 2 ^ 100, 0, 0)\<close>, whose square underflows.\<close>

definition tinyCoordinate :: real where
  "tinyCoordinate = 1 / 2 ^ 100"

definition tinyHits :: "CaloHitPtr \<Rightarrow> CaloHit" where
  "tinyHits h =
     sampleHit\<lparr>m_positionVector := \<lparr> m_x = Finite tinyCoordinate, m_y = Finite 0, m_z = Finite 0 \<rparr>\<rparr>"

definition originHits :: "CaloHitPtr \<Rightarrow> CaloHit" where
  "originHits h =
     sampleHit\<lparr>m_positionVector := \<lparr> m_x = Finite 0, m_y = Finite 0, m_z = Finite 0 \<rparr>\<rparr>"

section \<open>Properties\<close>

lemma map_of_usage_assign:
  "map_of (usage_assign k v m) x =
     (if x = k \<and> k \<in> fst ` set m then Some v else map_of m x)"
  by (induction m) (auto simp: rev_image_eqI)

lemma keys_usage_assign: "map fst (usage_assign k v m) = map fst m"
  by (induction m) auto

text \<open>
  C5. At depth 0 \<^verbatim>\<open>IsCaloHitAvailable\<close> returns the stored flag of the hit. At depth
  \<open>\<ge> 1\<close>, with the current pointer on a live usage map, it returns the value that the map
  holds for the hit, and \<open>False\<close>, not an error, for a hit that is not a key of the map.
\<close>

theorem C5_IsCaloHitAvailable:
  "(m_nReclusteringProcesses s = 0 \<longrightarrow>
      IsCaloHitAvailable s h = Some (m_isAvailable (caloHits s h))) \<and>
   (1 \<le> unat (m_nReclusteringProcesses s) \<and> m_pCurrentUsageMap s = Some a \<and>
    heap_get (usageMapHeap s) a = Some usageMap \<longrightarrow>
      IsCaloHitAvailable s h =
        Some (case map_of usageMap h of None \<Rightarrow> False | Some second \<Rightarrow> second))"
proof -
  have nz: "1 \<le> unat (m_nReclusteringProcesses s) \<Longrightarrow> m_nReclusteringProcesses s \<noteq> 0"
    by (auto simp: unat_eq_0)
  show ?thesis
    using nz
    by (auto simp: IsCaloHitAvailable_def deref_def split: option.splits)
qed

theorem C5_IsCaloHitAvailable_witness:
  "(IsCaloHitAvailable (initialCaloHitHelper (\<lambda>h. sampleHit)) 7 = Some True) \<and>
   (1 \<le> unat (m_nReclusteringProcesses sampleHelper1) \<and>
    m_pCurrentUsageMap sampleHelper1 = Some 0 \<and>
    heap_get (usageMapHeap sampleHelper1) 0 = Some [(1, False), (2, True)]) \<and>
   IsCaloHitAvailable sampleHelper1 1 = Some False \<and>
   IsCaloHitAvailable sampleHelper1 2 = Some True \<and>
   IsCaloHitAvailable sampleHelper1 3 = Some False"
  using C5_IsCaloHitAvailable [of "initialCaloHitHelper (\<lambda>h. sampleHit)" 7]
        C5_IsCaloHitAvailable [of sampleHelper1 1 0 "[(1, False), (2, True)]"]
        C5_IsCaloHitAvailable [of sampleHelper1 2 0 "[(1, False), (2, True)]"]
        C5_IsCaloHitAvailable [of sampleHelper1 3 0 "[(1, False), (2, True)]"]
  by (simp add: initialCaloHitHelper_def sampleHit_def sampleHelper1_def heap_get_def)

lemma map_of_key: "k \<in> fst ` set m \<Longrightarrow> \<exists>b. map_of m k = Some b"
  by (cases "map_of m k") (auto simp: map_of_eq_None_iff)

lemma heap_get_length: "heap_get h a = Some m \<Longrightarrow> a < length h"
  by (auto simp: heap_get_def split: if_splits)

lemma heap_get_update:
  "a < length h \<Longrightarrow> heap_get (h[a := x]) b = (if b = a then x else heap_get h b)"
  by (auto simp: heap_get_def)

lemma word_depth_nonzero: "1 \<le> unat (n :: 32 word) \<Longrightarrow> n \<noteq> 0"
  by (auto simp: unat_eq_0)

lemma set_usage_loop_prefix:
  "m_pCurrentUsageMap s = Some a \<Longrightarrow> heap_get (usageMapHeap s) a = Some m \<Longrightarrow>
   set pre \<subseteq> fst ` set m \<Longrightarrow> u \<notin> fst ` set m \<Longrightarrow>
   \<exists>s' m'. set_usage_loop s (pre @ u # post) v = Some (STATUS_CODE_NOT_FOUND, s') \<and>
           heap_get (usageMapHeap s') a = Some m' \<and> map fst m' = map fst m \<and>
           (\<forall>k. map_of m' k = (if k \<in> set pre then Some v else map_of m k))"
proof (induction pre arbitrary: s m)
  case Nil
  then show ?case
    by (auto simp: map_of_eq_None_iff [symmetric])
next
  case (Cons x pre)
  from Cons.prems obtain b where b: "map_of m x = Some b"
    using map_of_key [of x m] by auto
  let ?m1 = "usage_assign x v m"
  let ?s1 = "s\<lparr>usageMapHeap := (usageMapHeap s)[a := Some ?m1]\<rparr>"
  have len: "a < length (usageMapHeap s)"
    using Cons.prems(2) by (rule heap_get_length)
  have keys: "map fst ?m1 = map fst m"
    by (rule keys_usage_assign)
  have keyset: "fst ` set ?m1 = fst ` set m"
    using keys by (metis list.set_map)
  have "\<exists>s' m'. set_usage_loop ?s1 (pre @ u # post) v = Some (STATUS_CODE_NOT_FOUND, s') \<and>
           heap_get (usageMapHeap s') a = Some m' \<and> map fst m' = map fst ?m1 \<and>
           (\<forall>k. map_of m' k = (if k \<in> set pre then Some v else map_of ?m1 k))"
    using Cons.prems len keyset
    by (intro Cons.IH) (auto simp: heap_get_update)
  then obtain s' m' where
    run: "set_usage_loop ?s1 (pre @ u # post) v = Some (STATUS_CODE_NOT_FOUND, s')" and
    cell: "heap_get (usageMapHeap s') a = Some m'" and
    k: "map fst m' = map fst ?m1" and
    vals: "\<forall>k. map_of m' k = (if k \<in> set pre then Some v else map_of ?m1 k)"
    by blast
  have "set_usage_loop s ((x # pre) @ u # post) v = Some (STATUS_CODE_NOT_FOUND, s')"
    using Cons.prems(1,2) b run by simp
  moreover have "\<forall>k. map_of m' k = (if k \<in> set (x # pre) then Some v else map_of m k)"
    using vals Cons.prems(3) by (auto simp: map_of_usage_assign)
  ultimately show ?case
    using cell k keys by auto
qed

text \<open>
  C6. At depth 0 \<^verbatim>\<open>SetCaloHitAvailability\<close> succeeds and sets the flag of the hit. At depth
  \<open>\<ge> 1\<close>, with the current pointer on a live usage map, it writes the entry of the hit in
  that map, and returns \<^verbatim>\<open>STATUS_CODE_NOT_FOUND\<close>, changing nothing, for a hit that is not
  a key. The list overload, given hits \<open>pre\<close> that are keys followed by a hit \<open>u\<close> that is
  not, returns \<^verbatim>\<open>STATUS_CODE_NOT_FOUND\<close> with the entries of \<open>pre\<close> already written: there
  is no rollback.
\<close>

theorem C6_SetCaloHitAvailability:
  "(m_nReclusteringProcesses s = 0 \<longrightarrow>
      (\<exists>s'. SetCaloHitAvailability s h v = Some (STATUS_CODE_SUCCESS, s') \<and>
            m_isAvailable (caloHits s' h) = v)) \<and>
   (1 \<le> unat (m_nReclusteringProcesses s) \<and> m_pCurrentUsageMap s = Some a \<and>
    heap_get (usageMapHeap s) a = Some usageMap \<longrightarrow>
      (h \<in> fst ` set usageMap \<longrightarrow>
         (\<exists>s' m'. SetCaloHitAvailability s h v = Some (STATUS_CODE_SUCCESS, s') \<and>
                  heap_get (usageMapHeap s') a = Some m' \<and> map fst m' = map fst usageMap \<and>
                  (\<forall>k. map_of m' k = (if k = h then Some v else map_of usageMap k)))) \<and>
      (h \<notin> fst ` set usageMap \<longrightarrow>
         SetCaloHitAvailability s h v = Some (STATUS_CODE_NOT_FOUND, s)) \<and>
      (set pre \<subseteq> fst ` set usageMap \<and> u \<notin> fst ` set usageMap \<longrightarrow>
         (\<exists>s' m'. SetCaloHitAvailability_list s (pre @ u # post) v =
                    Some (STATUS_CODE_NOT_FOUND, s') \<and>
                  heap_get (usageMapHeap s') a = Some m' \<and> map fst m' = map fst usageMap \<and>
                  (\<forall>k. map_of m' k = (if k \<in> set pre then Some v else map_of usageMap k)))))"
proof (intro conjI impI)
  assume "m_nReclusteringProcesses s = 0"
  then show "\<exists>s'. SetCaloHitAvailability s h v = Some (STATUS_CODE_SUCCESS, s') \<and>
                  m_isAvailable (caloHits s' h) = v"
    by (simp add: SetCaloHitAvailability_def)
next
  assume live: "1 \<le> unat (m_nReclusteringProcesses s) \<and> m_pCurrentUsageMap s = Some a \<and>
                heap_get (usageMapHeap s) a = Some usageMap"
     and key: "h \<in> fst ` set usageMap"
  from key obtain b where "map_of usageMap h = Some b"
    using map_of_key [of h usageMap] by auto
  then show "\<exists>s' m'. SetCaloHitAvailability s h v = Some (STATUS_CODE_SUCCESS, s') \<and>
                  heap_get (usageMapHeap s') a = Some m' \<and> map fst m' = map fst usageMap \<and>
                  (\<forall>k. map_of m' k = (if k = h then Some v else map_of usageMap k))"
    using live key heap_get_length [of "usageMapHeap s" a usageMap]
    by (auto simp: SetCaloHitAvailability_def word_depth_nonzero heap_get_update
                   keys_usage_assign map_of_usage_assign)
next
  assume live: "1 \<le> unat (m_nReclusteringProcesses s) \<and> m_pCurrentUsageMap s = Some a \<and>
                heap_get (usageMapHeap s) a = Some usageMap"
     and nokey: "h \<notin> fst ` set usageMap"
  then show "SetCaloHitAvailability s h v = Some (STATUS_CODE_NOT_FOUND, s)"
    by (auto simp: SetCaloHitAvailability_def word_depth_nonzero map_of_eq_None_iff [symmetric])
next
  assume live: "1 \<le> unat (m_nReclusteringProcesses s) \<and> m_pCurrentUsageMap s = Some a \<and>
                heap_get (usageMapHeap s) a = Some usageMap"
     and pre: "set pre \<subseteq> fst ` set usageMap \<and> u \<notin> fst ` set usageMap"
  then show "\<exists>s' m'. SetCaloHitAvailability_list s (pre @ u # post) v =
                    Some (STATUS_CODE_NOT_FOUND, s') \<and>
                  heap_get (usageMapHeap s') a = Some m' \<and> map fst m' = map fst usageMap \<and>
                  (\<forall>k. map_of m' k = (if k \<in> set pre then Some v else map_of usageMap k))"
    using set_usage_loop_prefix [of s a usageMap pre u post v]
    by (simp add: SetCaloHitAvailability_list_def word_depth_nonzero)
qed

theorem C6_SetCaloHitAvailability_witness:
  "(1 \<le> unat (m_nReclusteringProcesses sampleHelper1) \<and>
    m_pCurrentUsageMap sampleHelper1 = Some 0 \<and>
    heap_get (usageMapHeap sampleHelper1) 0 = Some [(1, False), (2, True)] \<and>
    2 \<in> fst ` set [(1 :: nat, False), (2, True)] \<and>
    3 \<notin> fst ` set [(1 :: nat, False), (2, True)] \<and>
    set [1, 2] \<subseteq> fst ` set [(1 :: nat, False), (2, True)]) \<and>
   (\<exists>s'. SetCaloHitAvailability (initialCaloHitHelper (\<lambda>h. sampleHit)) 7 False =
            Some (STATUS_CODE_SUCCESS, s') \<and>
         \<not> m_isAvailable (caloHits s' 7)) \<and>
   (\<exists>s' m'. SetCaloHitAvailability sampleHelper1 2 False = Some (STATUS_CODE_SUCCESS, s') \<and>
            heap_get (usageMapHeap s') 0 = Some m' \<and> map_of m' 2 = Some False) \<and>
   SetCaloHitAvailability sampleHelper1 3 True = Some (STATUS_CODE_NOT_FOUND, sampleHelper1) \<and>
   (\<exists>s' m'. SetCaloHitAvailability_list sampleHelper1 [1, 2, 3, 1] True =
               Some (STATUS_CODE_NOT_FOUND, s') \<and>
            heap_get (usageMapHeap s') 0 = Some m' \<and>
            map_of m' 1 = Some True \<and> map_of m' 2 = Some True)"
proof -
  have live: "1 \<le> unat (m_nReclusteringProcesses sampleHelper1) \<and>
              m_pCurrentUsageMap sampleHelper1 = Some 0 \<and>
              heap_get (usageMapHeap sampleHelper1) 0 = Some [(1, False), (2, True)]"
    by (simp add: sampleHelper1_def heap_get_def)
  have keys: "2 \<in> fst ` set [(1 :: nat, False), (2, True)] \<and>
              3 \<notin> fst ` set [(1 :: nat, False), (2, True)] \<and>
              set [1, 2] \<subseteq> fst ` set [(1 :: nat, False), (2, True)]"
    by simp
  have depth0: "m_nReclusteringProcesses (initialCaloHitHelper (\<lambda>h. sampleHit)) = 0"
    by (simp add: initialCaloHitHelper_def)
  note a = C6_SetCaloHitAvailability
             [where s = "initialCaloHitHelper (\<lambda>h. sampleHit)" and h = 7 and v = False]
  note b = C6_SetCaloHitAvailability
             [where s = sampleHelper1 and a = 0 and usageMap = "[(1, False), (2, True)]"
                and h = 2 and v = False]
  note c = C6_SetCaloHitAvailability
             [where s = sampleHelper1 and a = 0 and usageMap = "[(1, False), (2, True)]"
                and h = 3 and v = True and pre = "[1, 2]" and u = 3 and post = "[1]"]
  have 1: "\<exists>s'. SetCaloHitAvailability (initialCaloHitHelper (\<lambda>h. sampleHit)) 7 False =
            Some (STATUS_CODE_SUCCESS, s') \<and> \<not> m_isAvailable (caloHits s' 7)"
    using a depth0 by simp
  have 2: "\<exists>s' m'. SetCaloHitAvailability sampleHelper1 2 False = Some (STATUS_CODE_SUCCESS, s') \<and>
            heap_get (usageMapHeap s') 0 = Some m' \<and> map_of m' 2 = Some False"
  proof -
    from b live keys obtain s' m' where
      "SetCaloHitAvailability sampleHelper1 2 False = Some (STATUS_CODE_SUCCESS, s')"
      "heap_get (usageMapHeap s') 0 = Some m'"
      "\<forall>k. map_of m' k = (if k = 2 then Some False else map_of [(1, False), (2, True)] k)"
      by blast
    then show ?thesis by auto
  qed
  have 3: "SetCaloHitAvailability sampleHelper1 3 True = Some (STATUS_CODE_NOT_FOUND, sampleHelper1)"
    using c live keys by blast
  have 4: "\<exists>s' m'. SetCaloHitAvailability_list sampleHelper1 [1, 2, 3, 1] True =
               Some (STATUS_CODE_NOT_FOUND, s') \<and>
            heap_get (usageMapHeap s') 0 = Some m' \<and>
            map_of m' 1 = Some True \<and> map_of m' 2 = Some True"
  proof -
    from c live keys obtain s' m' where
      "SetCaloHitAvailability_list sampleHelper1 ([1, 2] @ 3 # [1]) True =
         Some (STATUS_CODE_NOT_FOUND, s')"
      "heap_get (usageMapHeap s') 0 = Some m'"
      "\<forall>k. map_of m' k =
           (if k \<in> set [1, 2] then Some True else map_of [(1, False), (2, True)] k)"
      by blast
    then show ?thesis by auto
  qed
  show ?thesis
    using live keys 1 2 3 4 by blast
qed

lemma heap_get_append:
  "heap_get (h @ [x]) b = (if b = length h then x else heap_get h b)"
  by (auto simp: heap_get_def nth_append)

lemma map_of_reset:
  "map_of (map (\<lambda>(k, second). (k, True)) m) k =
     (if k \<in> fst ` set m then Some True else None)"
  by (induction m) auto

lemma keys_reset: "map fst (map (\<lambda>(k, second). (k, True)) m) = map fst m"
  by (induction m) auto

text \<open>
  C7. \<^verbatim>\<open>CreateAdditionalCaloHitUsageMap\<close> returns \<^verbatim>\<open>STATUS_CODE_NOT_ALLOWED\<close> at depth 0
  and changes nothing. At depth \<open>\<ge> 1\<close>, with the current pointer on a live usage map, a
  name that is not registered and a nesting level open, it succeeds: the new map sits at
  a fresh address, has the keys of the map that was current, each with value \<open>True\<close>
  whatever the value was, is registered under the name and is the current map; the name
  is appended to the last level of the name history; the depth counter, the parent stack,
  the old map and the hits are as before. With a name that is already registered it
  returns \<^verbatim>\<open>STATUS_CODE_FAILURE\<close> and leaves depth, stack, registry, history and current
  pointer as they were.
\<close>

theorem C7_CreateAdditionalCaloHitUsageMap:
  "(m_nReclusteringProcesses s = 0 \<longrightarrow>
      CreateAdditionalCaloHitUsageMap s name = Some (STATUS_CODE_NOT_ALLOWED, s)) \<and>
   (1 \<le> unat (m_nReclusteringProcesses s) \<and> m_pCurrentUsageMap s = Some c \<and>
    heap_get (usageMapHeap s) c = Some currentMap \<longrightarrow>
      (map_of (m_nameToCaloHitUsageMap s) name = None \<and> m_nestedUsageMapNames s \<noteq> [] \<longrightarrow>
         (\<exists>s' a newMap.
            CreateAdditionalCaloHitUsageMap s name = Some (STATUS_CODE_SUCCESS, s') \<and>
            m_pCurrentUsageMap s' = Some a \<and> a \<noteq> c \<and>
            heap_get (usageMapHeap s) a = None \<and>
            heap_get (usageMapHeap s') a = Some newMap \<and>
            map fst newMap = map fst currentMap \<and>
            (\<forall>k \<in> fst ` set currentMap. map_of newMap k = Some True) \<and>
            heap_get (usageMapHeap s') c = Some currentMap \<and>
            m_nameToCaloHitUsageMap s' = m_nameToCaloHitUsageMap s @ [(name, Some a)] \<and>
            m_nestedUsageMapNames s' =
              butlast (m_nestedUsageMapNames s) @ [last (m_nestedUsageMapNames s) @ [name]] \<and>
            m_nReclusteringProcesses s' = m_nReclusteringProcesses s \<and>
            m_parentCaloHitUsageMaps s' = m_parentCaloHitUsageMaps s \<and>
            caloHits s' = caloHits s)) \<and>
      (map_of (m_nameToCaloHitUsageMap s) name \<noteq> None \<longrightarrow>
         (\<exists>s'. CreateAdditionalCaloHitUsageMap s name = Some (STATUS_CODE_FAILURE, s') \<and>
               m_nReclusteringProcesses s' = m_nReclusteringProcesses s \<and>
               m_parentCaloHitUsageMaps s' = m_parentCaloHitUsageMaps s \<and>
               m_nameToCaloHitUsageMap s' = m_nameToCaloHitUsageMap s \<and>
               m_nestedUsageMapNames s' = m_nestedUsageMapNames s \<and>
               m_pCurrentUsageMap s' = m_pCurrentUsageMap s)))"
proof (intro conjI impI)
  assume "m_nReclusteringProcesses s = 0"
  then show "CreateAdditionalCaloHitUsageMap s name = Some (STATUS_CODE_NOT_ALLOWED, s)"
    by (simp add: CreateAdditionalCaloHitUsageMap_def)
next
  assume live: "1 \<le> unat (m_nReclusteringProcesses s) \<and> m_pCurrentUsageMap s = Some c \<and>
                heap_get (usageMapHeap s) c = Some currentMap"
     and fresh: "map_of (m_nameToCaloHitUsageMap s) name = None \<and> m_nestedUsageMapNames s \<noteq> []"
  let ?a = "length (usageMapHeap s)"
  let ?new = "map (\<lambda>(k, second). (k, True)) currentMap"
  let ?s' = "s\<lparr>usageMapHeap := (usageMapHeap s @ [Some currentMap])[?a := Some ?new],
               m_nameToCaloHitUsageMap := m_nameToCaloHitUsageMap s @ [(name, Some ?a)],
               m_pCurrentUsageMap := Some ?a,
               m_nestedUsageMapNames :=
                 butlast (m_nestedUsageMapNames s) @ [last (m_nestedUsageMapNames s) @ [name]]\<rparr>"
  have c: "c < ?a"
    using live heap_get_length by blast
  have run: "CreateAdditionalCaloHitUsageMap s name = Some (STATUS_CODE_SUCCESS, ?s')"
    using live fresh
    by (cases "m_nestedUsageMapNames s")
       (simp_all add: CreateAdditionalCaloHitUsageMap_def word_depth_nonzero deref_def
                      heap_new_def)
  have cells: "heap_get (usageMapHeap ?s') ?a = Some ?new"
              "heap_get (usageMapHeap ?s') c = Some currentMap"
              "heap_get (usageMapHeap s) ?a = None"
    using c live by (simp_all add: heap_get_def nth_append)
  have vals: "\<forall>k \<in> fst ` set currentMap. map_of ?new k = Some True"
    by (simp add: map_of_reset)
  show "\<exists>s' a newMap.
            CreateAdditionalCaloHitUsageMap s name = Some (STATUS_CODE_SUCCESS, s') \<and>
            m_pCurrentUsageMap s' = Some a \<and> a \<noteq> c \<and>
            heap_get (usageMapHeap s) a = None \<and>
            heap_get (usageMapHeap s') a = Some newMap \<and>
            map fst newMap = map fst currentMap \<and>
            (\<forall>k \<in> fst ` set currentMap. map_of newMap k = Some True) \<and>
            heap_get (usageMapHeap s') c = Some currentMap \<and>
            m_nameToCaloHitUsageMap s' = m_nameToCaloHitUsageMap s @ [(name, Some a)] \<and>
            m_nestedUsageMapNames s' =
              butlast (m_nestedUsageMapNames s) @ [last (m_nestedUsageMapNames s) @ [name]] \<and>
            m_nReclusteringProcesses s' = m_nReclusteringProcesses s \<and>
            m_parentCaloHitUsageMaps s' = m_parentCaloHitUsageMaps s \<and>
            caloHits s' = caloHits s"
    apply (rule exI [of _ ?s'], rule exI [of _ ?a], rule exI [of _ ?new])
    using run cells vals c keys_reset [of currentMap] by simp
next
  assume live: "1 \<le> unat (m_nReclusteringProcesses s) \<and> m_pCurrentUsageMap s = Some c \<and>
                heap_get (usageMapHeap s) c = Some currentMap"
     and taken: "map_of (m_nameToCaloHitUsageMap s) name \<noteq> None"
  then show "\<exists>s'. CreateAdditionalCaloHitUsageMap s name = Some (STATUS_CODE_FAILURE, s') \<and>
               m_nReclusteringProcesses s' = m_nReclusteringProcesses s \<and>
               m_parentCaloHitUsageMaps s' = m_parentCaloHitUsageMaps s \<and>
               m_nameToCaloHitUsageMap s' = m_nameToCaloHitUsageMap s \<and>
               m_nestedUsageMapNames s' = m_nestedUsageMapNames s \<and>
               m_pCurrentUsageMap s' = m_pCurrentUsageMap s"
    by (auto simp: CreateAdditionalCaloHitUsageMap_def word_depth_nonzero deref_def heap_new_def)
qed

theorem C7_CreateAdditionalCaloHitUsageMap_witness:
  "(m_nReclusteringProcesses (initialCaloHitHelper (\<lambda>h. sampleHit)) = 0 \<and>
    1 \<le> unat (m_nReclusteringProcesses sampleHelper1) \<and>
    m_pCurrentUsageMap sampleHelper1 = Some 0 \<and>
    heap_get (usageMapHeap sampleHelper1) 0 = Some [(1, False), (2, True)] \<and>
    map_of (m_nameToCaloHitUsageMap sampleHelper1) ''second'' = None \<and>
    m_nestedUsageMapNames sampleHelper1 \<noteq> [] \<and>
    map_of (m_nameToCaloHitUsageMap sampleHelper1) ''first'' \<noteq> None) \<and>
   CreateAdditionalCaloHitUsageMap (initialCaloHitHelper (\<lambda>h. sampleHit)) ''second'' =
     Some (STATUS_CODE_NOT_ALLOWED, initialCaloHitHelper (\<lambda>h. sampleHit)) \<and>
   (\<exists>s' a newMap.
      CreateAdditionalCaloHitUsageMap sampleHelper1 ''second'' = Some (STATUS_CODE_SUCCESS, s') \<and>
      m_pCurrentUsageMap s' = Some a \<and> a \<noteq> 0 \<and>
      heap_get (usageMapHeap s') a = Some newMap \<and>
      map fst newMap = [1, 2] \<and>
      map_of newMap 1 = Some True \<and> map_of newMap 2 = Some True \<and>
      heap_get (usageMapHeap s') 0 = Some [(1, False), (2, True)] \<and>
      m_nameToCaloHitUsageMap s' = [(''first'', Some 0), (''second'', Some a)] \<and>
      m_nestedUsageMapNames s' = [[''first'', ''second'']] \<and>
      m_nReclusteringProcesses s' = 1 \<and>
      m_parentCaloHitUsageMaps s' = []) \<and>
   (\<exists>s'. CreateAdditionalCaloHitUsageMap sampleHelper1 ''first'' = Some (STATUS_CODE_FAILURE, s') \<and>
         m_nReclusteringProcesses s' = 1 \<and>
         m_parentCaloHitUsageMaps s' = [] \<and>
         m_nameToCaloHitUsageMap s' = [(''first'', Some 0)] \<and>
         m_nestedUsageMapNames s' = [[''first'']] \<and>
         m_pCurrentUsageMap s' = Some 0)"
proof -
  have depth0: "m_nReclusteringProcesses (initialCaloHitHelper (\<lambda>h. sampleHit)) = 0"
    by (simp add: initialCaloHitHelper_def)
  have live: "1 \<le> unat (m_nReclusteringProcesses sampleHelper1) \<and>
              m_pCurrentUsageMap sampleHelper1 = Some 0 \<and>
              heap_get (usageMapHeap sampleHelper1) 0 = Some [(1, False), (2, True)]"
    by (simp add: sampleHelper1_def heap_get_def)
  have fresh: "map_of (m_nameToCaloHitUsageMap sampleHelper1) ''second'' = None \<and>
               m_nestedUsageMapNames sampleHelper1 \<noteq> []"
    by (simp add: sampleHelper1_def)
  have taken: "map_of (m_nameToCaloHitUsageMap sampleHelper1) ''first'' \<noteq> None"
    by (simp add: sampleHelper1_def)
  have fields: "m_nameToCaloHitUsageMap sampleHelper1 = [(''first'', Some 0)]"
               "m_nestedUsageMapNames sampleHelper1 = [[''first'']]"
               "m_nReclusteringProcesses sampleHelper1 = 1"
               "m_parentCaloHitUsageMaps sampleHelper1 = []"
    by (simp_all add: sampleHelper1_def)
  have 1: "CreateAdditionalCaloHitUsageMap (initialCaloHitHelper (\<lambda>h. sampleHit)) ''second'' =
             Some (STATUS_CODE_NOT_ALLOWED, initialCaloHitHelper (\<lambda>h. sampleHit))"
    using C7_CreateAdditionalCaloHitUsageMap
            [where s = "initialCaloHitHelper (\<lambda>h. sampleHit)" and name = "''second''"] depth0
    by blast
  have "\<exists>s' a newMap.
      CreateAdditionalCaloHitUsageMap sampleHelper1 ''second'' = Some (STATUS_CODE_SUCCESS, s') \<and>
      m_pCurrentUsageMap s' = Some a \<and> a \<noteq> 0 \<and>
      heap_get (usageMapHeap sampleHelper1) a = None \<and>
      heap_get (usageMapHeap s') a = Some newMap \<and>
      map fst newMap = map fst [(1 :: nat, False), (2, True)] \<and>
      (\<forall>k \<in> fst ` set [(1 :: nat, False), (2, True)]. map_of newMap k = Some True) \<and>
      heap_get (usageMapHeap s') 0 = Some [(1, False), (2, True)] \<and>
      m_nameToCaloHitUsageMap s' = m_nameToCaloHitUsageMap sampleHelper1 @ [(''second'', Some a)] \<and>
      m_nestedUsageMapNames s' =
        butlast (m_nestedUsageMapNames sampleHelper1) @
        [last (m_nestedUsageMapNames sampleHelper1) @ [''second'']] \<and>
      m_nReclusteringProcesses s' = m_nReclusteringProcesses sampleHelper1 \<and>
      m_parentCaloHitUsageMaps s' = m_parentCaloHitUsageMaps sampleHelper1 \<and>
      caloHits s' = caloHits sampleHelper1"
    using C7_CreateAdditionalCaloHitUsageMap
            [where s = sampleHelper1 and name = "''second''" and c = 0
               and currentMap = "[(1, False), (2, True)]"] live fresh
    by blast
  then have 2: "\<exists>s' a newMap.
      CreateAdditionalCaloHitUsageMap sampleHelper1 ''second'' = Some (STATUS_CODE_SUCCESS, s') \<and>
      m_pCurrentUsageMap s' = Some a \<and> a \<noteq> 0 \<and>
      heap_get (usageMapHeap s') a = Some newMap \<and>
      map fst newMap = [1, 2] \<and>
      map_of newMap 1 = Some True \<and> map_of newMap 2 = Some True \<and>
      heap_get (usageMapHeap s') 0 = Some [(1, False), (2, True)] \<and>
      m_nameToCaloHitUsageMap s' = [(''first'', Some 0), (''second'', Some a)] \<and>
      m_nestedUsageMapNames s' = [[''first'', ''second'']] \<and>
      m_nReclusteringProcesses s' = 1 \<and>
      m_parentCaloHitUsageMaps s' = []"
    unfolding fields by fastforce
  have "\<exists>s'. CreateAdditionalCaloHitUsageMap sampleHelper1 ''first'' = Some (STATUS_CODE_FAILURE, s') \<and>
         m_nReclusteringProcesses s' = m_nReclusteringProcesses sampleHelper1 \<and>
         m_parentCaloHitUsageMaps s' = m_parentCaloHitUsageMaps sampleHelper1 \<and>
         m_nameToCaloHitUsageMap s' = m_nameToCaloHitUsageMap sampleHelper1 \<and>
         m_nestedUsageMapNames s' = m_nestedUsageMapNames sampleHelper1 \<and>
         m_pCurrentUsageMap s' = m_pCurrentUsageMap sampleHelper1"
    using C7_CreateAdditionalCaloHitUsageMap
            [where s = sampleHelper1 and name = "''first''" and c = 0
               and currentMap = "[(1, False), (2, True)]"] live taken
    by blast
  then have 3: "\<exists>s'. CreateAdditionalCaloHitUsageMap sampleHelper1 ''first'' =
                    Some (STATUS_CODE_FAILURE, s') \<and>
         m_nReclusteringProcesses s' = 1 \<and>
         m_parentCaloHitUsageMaps s' = [] \<and>
         m_nameToCaloHitUsageMap s' = [(''first'', Some 0)] \<and>
         m_nestedUsageMapNames s' = [[''first'']] \<and>
         m_pCurrentUsageMap s' = Some 0"
    using fields live by simp
  show ?thesis
    using depth0 live fresh taken 1 2 3 by blast
qed

lemma write_back_other: "h \<notin> fst ` set m \<Longrightarrow> write_back m hits h = hits h"
  by (induction m hits rule: write_back.induct) auto

lemma write_back_flag:
  "distinct (map fst m) \<Longrightarrow> (h, v) \<in> set m \<Longrightarrow> m_isAvailable (write_back m hits h) = v"
proof (induction m hits rule: write_back.induct)
  case (1 hits)
  then show ?case by simp
next
  case (2 first second rest hits)
  show ?case
  proof (cases "(h, v) = (first, second)")
    case True
    then have "h \<notin> fst ` set rest"
      using "2.prems"(1) by auto
    then show ?thesis
      using True by (simp add: write_back_other)
  next
    case False
    then have "(h, v) \<in> set rest" and "distinct (map fst rest)"
      using "2.prems" by auto
    then have "m_isAvailable
                 (write_back rest (hits(first := (hits first)\<lparr>m_isAvailable := second\<rparr>)) h) = v"
      by (rule "2.IH" [rotated])
    then show ?thesis
      by simp
  qed
qed

lemma delete_all_live:
  "distinct ps \<Longrightarrow> \<forall>p \<in> set ps. \<exists>b m. p = Some b \<and> heap_get h b = Some m \<Longrightarrow>
   \<exists>h'. delete_all h ps = Some h'"
proof (induction ps arbitrary: h)
  case Nil
  then show ?case by simp
next
  case (Cons p ps)
  then obtain b m where p: "p = Some b" "heap_get h b = Some m"
    by auto
  have len: "b < length h"
    using p(2) by (rule heap_get_length)
  have "\<forall>q \<in> set ps. \<exists>b' m'. q = Some b' \<and> heap_get (h[b := None]) b' = Some m'"
  proof
    fix q assume q: "q \<in> set ps"
    then obtain b' m' where q': "q = Some b'" "heap_get h b' = Some m'"
      using Cons.prems(2) by auto
    have "b' \<noteq> b"
      using q q'(1) p(1) Cons.prems(1) by auto
    then show "\<exists>b' m'. q = Some b' \<and> heap_get (h[b := None]) b' = Some m'"
      using q' len by (simp add: heap_get_update)
  qed
  then have "\<exists>h'. delete_all (h[b := None]) ps = Some h'"
    using Cons.prems(1) by (intro Cons.IH) auto
  then show ?case
    using p by (simp add: heap_delete_def)
qed

text \<open>
  C1. \<^verbatim>\<open>ApplyCaloHitUsageMap\<close> with exactly one scope open, for a name registered with a
  live usage map (a \<^verbatim>\<open>std::map\<close>, so its keys are distinct), in a registry whose pointers are
  distinct and live (each was obtained from \<^verbatim>\<open>new\<close> and is deleted here): the call
  succeeds, every entry \<open>(hit, value)\<close> of the map is written to the availability flag of
  the hit, and afterwards the registry, the parent stack and the name history are empty
  and the depth counter is 0.
\<close>

theorem C1_ApplyCaloHitUsageMap_last_scope:
  assumes "m_nReclusteringProcesses s = 1"
    and "map_of (m_nameToCaloHitUsageMap s) name = Some (Some a)"
    and "heap_get (usageMapHeap s) a = Some usageMap"
    and "distinct (map fst usageMap)"
    and "distinct (map snd (m_nameToCaloHitUsageMap s))"
    and "\<forall>p \<in> set (map snd (m_nameToCaloHitUsageMap s)).
           \<exists>b m. p = Some b \<and> heap_get (usageMapHeap s) b = Some m"
  shows "\<exists>s'. ApplyCaloHitUsageMap s name = Some (STATUS_CODE_SUCCESS, s') \<and>
              (\<forall>(hit, value) \<in> set usageMap. m_isAvailable (caloHits s' hit) = value) \<and>
              m_nameToCaloHitUsageMap s' = [] \<and>
              m_parentCaloHitUsageMaps s' = [] \<and>
              m_nestedUsageMapNames s' = [] \<and>
              m_nReclusteringProcesses s' = 0"
proof -
  obtain h' where del:
    "delete_all (usageMapHeap s) (map snd (m_nameToCaloHitUsageMap s)) = Some h'"
    using delete_all_live [OF assms(5,6)] by blast
  let ?s' = "s\<lparr>m_nReclusteringProcesses := 0,
               caloHits := write_back usageMap (caloHits s),
               usageMapHeap := h',
               m_nameToCaloHitUsageMap := [],
               m_parentCaloHitUsageMaps := [],
               m_nestedUsageMapNames := [],
               m_pCurrentUsageMap := None\<rparr>"
  have run: "ApplyCaloHitUsageMap s name = Some (STATUS_CODE_SUCCESS, ?s')"
    using assms(1,2,3) del
    by (simp add: ApplyCaloHitUsageMap_def deref_def ClearCaloHitUsageMaps_def)
  have "\<forall>(hit, value) \<in> set usageMap. m_isAvailable (caloHits ?s' hit) = value"
    using assms(4) by (auto simp: write_back_flag)
  then show ?thesis
    using run by (intro exI [of _ ?s']) simp
qed

theorem C1_ApplyCaloHitUsageMap_last_scope_witness:
  "(m_nReclusteringProcesses sampleHelper1 = 1 \<and>
    map_of (m_nameToCaloHitUsageMap sampleHelper1) ''first'' = Some (Some 0) \<and>
    heap_get (usageMapHeap sampleHelper1) 0 = Some [(1, False), (2, True)] \<and>
    distinct (map fst [(1 :: nat, False), (2, True)]) \<and>
    distinct (map snd (m_nameToCaloHitUsageMap sampleHelper1)) \<and>
    map snd (m_nameToCaloHitUsageMap sampleHelper1) = [Some 0]) \<and>
   (\<exists>s'. ApplyCaloHitUsageMap sampleHelper1 ''first'' = Some (STATUS_CODE_SUCCESS, s') \<and>
         \<not> m_isAvailable (caloHits s' 1) \<and> m_isAvailable (caloHits s' 2) \<and>
         m_nameToCaloHitUsageMap s' = [] \<and>
         m_parentCaloHitUsageMaps s' = [] \<and>
         m_nestedUsageMapNames s' = [] \<and>
         m_nReclusteringProcesses s' = 0)"
proof -
  have h1: "m_nReclusteringProcesses sampleHelper1 = 1"
    and h2: "map_of (m_nameToCaloHitUsageMap sampleHelper1) ''first'' = Some (Some 0)"
    and h3: "heap_get (usageMapHeap sampleHelper1) 0 = Some [(1, False), (2, True)]"
    and h5: "distinct (map snd (m_nameToCaloHitUsageMap sampleHelper1))"
    and h6: "\<forall>p \<in> set (map snd (m_nameToCaloHitUsageMap sampleHelper1)).
               \<exists>b m. p = Some b \<and> heap_get (usageMapHeap sampleHelper1) b = Some m"
    by (simp_all add: sampleHelper1_def heap_get_def)
  have h4: "distinct (map fst [(1 :: nat, False), (2, True)])"
    by simp
  from C1_ApplyCaloHitUsageMap_last_scope [OF h1 h2 h3 h4 h5 h6]
  obtain s' where
    "ApplyCaloHitUsageMap sampleHelper1 ''first'' = Some (STATUS_CODE_SUCCESS, s')"
    "\<forall>(hit, value) \<in> set [(1 :: nat, False), (2, True)]. m_isAvailable (caloHits s' hit) = value"
    "m_nameToCaloHitUsageMap s' = []" "m_parentCaloHitUsageMaps s' = []"
    "m_nestedUsageMapNames s' = []" "m_nReclusteringProcesses s' = 0"
    by blast
  then have "\<exists>s'. ApplyCaloHitUsageMap sampleHelper1 ''first'' = Some (STATUS_CODE_SUCCESS, s') \<and>
         \<not> m_isAvailable (caloHits s' 1) \<and> m_isAvailable (caloHits s' 2) \<and>
         m_nameToCaloHitUsageMap s' = [] \<and>
         m_parentCaloHitUsageMaps s' = [] \<and>
         m_nestedUsageMapNames s' = [] \<and>
         m_nReclusteringProcesses s' = 0"
    by auto
  moreover have "map snd (m_nameToCaloHitUsageMap sampleHelper1) = [Some 0]"
    by (simp add: sampleHelper1_def)
  ultimately show ?thesis
    using h1 h2 h3 h4 h5 by blast
qed

lemmas manager_defs =
  CreateInitialCaloHitUsageMap_def CreateAdditionalCaloHitUsageMap_def
  ApplyCaloHitUsageMap_def ClearCaloHitUsageMaps_def ClearMostRecentCaloHitUsageMaps_def
  SetCaloHitAvailability_def initialCaloHitHelper_def
  heap_new_def heap_get_def heap_delete_def deref_def usage_insert_def Let_def

lemma siblingScenario_run:
  assumes "A \<noteq> B"
  shows "siblingScenario hits A B =
           Some (STATUS_CODE_SUCCESS,
                 \<lparr> m_nReclusteringProcesses = 0,
                   m_pCurrentUsageMap = None,
                   m_parentCaloHitUsageMaps = [],
                   m_nestedUsageMapNames = [],
                   m_nameToCaloHitUsageMap = [],
                   usageMapHeap = [None, None],
                   caloHits = hits(A := (hits A)\<lparr>m_isAvailable := False\<rparr>,
                                   B := (hits B)\<lparr>m_isAvailable := True\<rparr>) \<rparr>)"
proof (cases "A \<le> B")
  case True
  then have "A < B" using assms by simp
  then show ?thesis
    using assms by (simp add: siblingScenario_def manager_defs)
next
  case False
  then show ?thesis
    using assms by (simp add: siblingScenario_def manager_defs fun_upd_twist)
qed

text \<open>
  C3, as stated, fails: after \<open>h1\<close> has been applied the depth is 0, and applying \<open>h0\<close> is
  refused by the depth test, which comes before the lookup of the name.
\<close>

theorem C3_sibling_counterexample:
  "map_option fst (siblingScenarioThenApply (\<lambda>h. sampleHit) 1 2) = Some STATUS_CODE_NOT_ALLOWED \<and>
   map_option fst (siblingScenarioThenApply (\<lambda>h. sampleHit) 1 2) \<noteq> Some STATUS_CODE_NOT_FOUND"
  by (simp add: siblingScenarioThenApply_def siblingScenario_run ApplyCaloHitUsageMap_def)

text \<open>
  C3, amended. For distinct hits \<open>A\<close> and \<open>B\<close> the scenario succeeds and leaves \<open>A\<close>
  unavailable and \<open>B\<close> available on the hits themselves, with the registry empty (\<open>h0\<close>
  is gone with \<open>h1\<close>) and the depth 0; applying \<open>h0\<close> then returns
  \<^verbatim>\<open>STATUS_CODE_NOT_ALLOWED\<close> and changes nothing.
\<close>

theorem C3_sibling_amended:
  assumes "A \<noteq> B"
  shows "\<exists>s4. siblingScenario hits A B = Some (STATUS_CODE_SUCCESS, s4) \<and>
              \<not> m_isAvailable (caloHits s4 A) \<and> m_isAvailable (caloHits s4 B) \<and>
              m_nameToCaloHitUsageMap s4 = [] \<and> m_nReclusteringProcesses s4 = 0 \<and>
              siblingScenarioThenApply hits A B = Some (STATUS_CODE_NOT_ALLOWED, s4)"
  using assms
  by (simp add: siblingScenarioThenApply_def siblingScenario_run ApplyCaloHitUsageMap_def)

theorem C3_sibling_amended_witness:
  "(1 :: nat) \<noteq> 2 \<and>
   (\<exists>s4. siblingScenario (\<lambda>h. sampleHit) 1 2 = Some (STATUS_CODE_SUCCESS, s4) \<and>
         \<not> m_isAvailable (caloHits s4 1) \<and> m_isAvailable (caloHits s4 2) \<and>
         m_nameToCaloHitUsageMap s4 = [] \<and> m_nReclusteringProcesses s4 = 0 \<and>
         siblingScenarioThenApply (\<lambda>h. sampleHit) 1 2 = Some (STATUS_CODE_NOT_ALLOWED, s4))"
  using C3_sibling_amended [of 1 2 "\<lambda>h. sampleHit"] by simp

text \<open>
  The sample state is the one the manager is in after an initial usage map has been
  created over the hits 1 and 2 and hit 2 has been set available.
\<close>

lemma sampleHelper1_reached:
  "\<exists>s1. CreateInitialCaloHitUsageMap (initialCaloHitHelper (\<lambda>h. sampleHit)) ''first'' [(0, [1, 2])] =
           Some (STATUS_CODE_SUCCESS, s1) \<and>
         SetCaloHitAvailability s1 2 True = Some (STATUS_CODE_SUCCESS, sampleHelper1)"
  by (simp add: manager_defs sampleHelper1_def)

text \<open>
  C2. The claim holds of the code for the errors raised by the depth test and by the
  lookup of the name, which come before any assignment. It fails for
  \<^verbatim>\<open>CreateInitialCaloHitUsageMap\<close> with a name that is already registered: the function
  increments the depth counter, pushes the current pointer on the parent stack and
  replaces the current pointer before it tries the insertion into the registry, and then
  returns \<^verbatim>\<open>STATUS_CODE_FAILURE\<close> without undoing any of it. In the sample state, with
  \<open>first\<close> registered at depth 1 and an empty parent stack, the call returns
  \<^verbatim>\<open>STATUS_CODE_FAILURE\<close> at depth 2 with one pointer on the parent stack.
\<close>

theorem C2_CreateInitial_duplicate_name:
  "m_nReclusteringProcesses sampleHelper1 = 1 \<and>
   m_parentCaloHitUsageMaps sampleHelper1 = [] \<and>
   map_of (m_nameToCaloHitUsageMap sampleHelper1) ''first'' = Some (Some 0) \<and>
   map_option fst (CreateInitialCaloHitUsageMap sampleHelper1 ''first'' [(0, [1, 2])]) =
     Some STATUS_CODE_FAILURE \<and>
   map_option (m_nReclusteringProcesses \<circ> snd)
     (CreateInitialCaloHitUsageMap sampleHelper1 ''first'' [(0, [1, 2])]) = Some 2 \<and>
   map_option (m_parentCaloHitUsageMaps \<circ> snd)
     (CreateInitialCaloHitUsageMap sampleHelper1 ''first'' [(0, [1, 2])]) = Some [Some 0] \<and>
   map_option (m_pCurrentUsageMap \<circ> snd)
     (CreateInitialCaloHitUsageMap sampleHelper1 ''first'' [(0, [1, 2])]) = Some (Some 1) \<and>
   map_option (m_nameToCaloHitUsageMap \<circ> snd)
     (CreateInitialCaloHitUsageMap sampleHelper1 ''first'' [(0, [1, 2])]) =
     Some (m_nameToCaloHitUsageMap sampleHelper1)"
  by (simp add: manager_defs sampleHelper1_def)

text \<open>The errors that come before any assignment do leave the whole state as it was.\<close>

lemma NOT_ALLOWED_changes_nothing:
  "CreateAdditionalCaloHitUsageMap s name = Some (STATUS_CODE_NOT_ALLOWED, s') \<Longrightarrow> s' = s"
  by (auto simp: CreateAdditionalCaloHitUsageMap_def heap_new_def Let_def
           split: if_splits option.splits list.splits)

lemma depth_test_changes_nothing:
  "m_nReclusteringProcesses s = 0 \<Longrightarrow>
   CreateAdditionalCaloHitUsageMap s name = Some (STATUS_CODE_NOT_ALLOWED, s) \<and>
   ApplyCaloHitUsageMap s name = Some (STATUS_CODE_NOT_ALLOWED, s)"
  by (simp add: CreateAdditionalCaloHitUsageMap_def ApplyCaloHitUsageMap_def)

lemma lookup_changes_nothing:
  "m_nReclusteringProcesses s \<noteq> 0 \<Longrightarrow> map_of (m_nameToCaloHitUsageMap s) name = None \<Longrightarrow>
   ApplyCaloHitUsageMap s name = Some (STATUS_CODE_NOT_FOUND, s)"
  by (simp add: ApplyCaloHitUsageMap_def)

lemma merge_into_current_all_present:
  "m_pCurrentUsageMap s = Some c \<Longrightarrow> heap_get (usageMapHeap s) c = Some parentMap \<Longrightarrow>
   fst ` set m \<subseteq> fst ` set parentMap \<Longrightarrow> distinct (map fst m) \<Longrightarrow>
   \<exists>merged. merge_into_current s m =
              Some (STATUS_CODE_SUCCESS, s\<lparr>usageMapHeap := (usageMapHeap s)[c := Some merged]\<rparr>) \<and>
            map fst merged = map fst parentMap \<and>
            (\<forall>k. map_of merged k =
                   (case map_of m k of None \<Rightarrow> map_of parentMap k | Some v \<Rightarrow> Some v))"
proof (induction m arbitrary: s parentMap)
  case Nil
  have "c < length (usageMapHeap s)" "usageMapHeap s ! c = Some parentMap"
    using Nil.prems(2) by (auto simp: heap_get_def split: if_splits)
  then have "s\<lparr>usageMapHeap := (usageMapHeap s)[c := Some parentMap]\<rparr> = s"
    by (simp add: list_update_same_conv)
  then show ?case
    by (intro exI [of _ parentMap]) simp
next
  case (Cons e m)
  obtain h v where e: "e = (h, v)"
    by (cases e)
  obtain old where old: "map_of parentMap h = Some old"
    using Cons.prems(3) e map_of_key [of h parentMap] by auto
  let ?p1 = "usage_assign h v parentMap"
  let ?s1 = "s\<lparr>usageMapHeap := (usageMapHeap s)[c := Some ?p1]\<rparr>"
  have len: "c < length (usageMapHeap s)"
    using Cons.prems(2) by (rule heap_get_length)
  have keys1: "map fst ?p1 = map fst parentMap"
    by (rule keys_usage_assign)
  have keyset1: "fst ` set ?p1 = fst ` set parentMap"
    using keys1 by (metis list.set_map)
  have "\<exists>merged. merge_into_current ?s1 m =
              Some (STATUS_CODE_SUCCESS, ?s1\<lparr>usageMapHeap := (usageMapHeap ?s1)[c := Some merged]\<rparr>) \<and>
            map fst merged = map fst ?p1 \<and>
            (\<forall>k. map_of merged k =
                   (case map_of m k of None \<Rightarrow> map_of ?p1 k | Some v \<Rightarrow> Some v))"
    using Cons.prems len keyset1 e
    by (intro Cons.IH) (auto simp: heap_get_update)
  then obtain merged where
    run: "merge_into_current ?s1 m =
            Some (STATUS_CODE_SUCCESS, ?s1\<lparr>usageMapHeap := (usageMapHeap ?s1)[c := Some merged]\<rparr>)" and
    keys: "map fst merged = map fst ?p1" and
    vals: "\<forall>k. map_of merged k =
                (case map_of m k of None \<Rightarrow> map_of ?p1 k | Some v \<Rightarrow> Some v)"
    by blast
  have fresh: "map_of m h = None"
    using Cons.prems(4) e by (simp add: map_of_eq_None_iff)
  have hkey: "h \<in> fst ` set parentMap"
    using Cons.prems(3) e by simp
  have "merge_into_current s (e # m) =
          Some (STATUS_CODE_SUCCESS, s\<lparr>usageMapHeap := (usageMapHeap s)[c := Some merged]\<rparr>)"
    using Cons.prems(1,2) old run e by simp
  moreover have "\<forall>k. map_of merged k =
                   (case map_of (e # m) k of None \<Rightarrow> map_of parentMap k | Some v \<Rightarrow> Some v)"
    using vals fresh hkey e by (auto simp: map_of_usage_assign split: option.splits)
  ultimately show ?case
    using keys keys1 by auto
qed

lemma merge_into_current_missing:
  "m_pCurrentUsageMap s = Some c \<Longrightarrow> heap_get (usageMapHeap s) c = Some parentMap \<Longrightarrow>
   \<not> fst ` set m \<subseteq> fst ` set parentMap \<Longrightarrow>
   \<exists>s'. merge_into_current s m = Some (STATUS_CODE_FAILURE, s')"
proof (induction m arbitrary: s parentMap)
  case Nil
  then show ?case by simp
next
  case (Cons e m)
  obtain h v where e: "e = (h, v)"
    by (cases e)
  show ?case
  proof (cases "map_of parentMap h")
    case None
    then show ?thesis
      using Cons.prems(1,2) e by simp
  next
    case (Some old)
    let ?p1 = "usage_assign h v parentMap"
    let ?s1 = "s\<lparr>usageMapHeap := (usageMapHeap s)[c := Some ?p1]\<rparr>"
    have len: "c < length (usageMapHeap s)"
      using Cons.prems(2) by (rule heap_get_length)
    have keyset1: "fst ` set ?p1 = fst ` set parentMap"
      using keys_usage_assign [of h v parentMap] by (metis list.set_map)
    have "h \<in> fst ` set parentMap"
      using Some by (metis map_of_eq_None_iff option.distinct(1))
    then have "\<not> fst ` set m \<subseteq> fst ` set ?p1"
      using Cons.prems(3) e keyset1 by auto
    then have "\<exists>s'. merge_into_current ?s1 m = Some (STATUS_CODE_FAILURE, s')"
      using Cons.prems(1) len
      by (intro Cons.IH [of ?s1 ?p1]) (auto simp: heap_get_update)
    then show ?thesis
      using Cons.prems(1,2) Some e by simp
  qed
qed

lemma map_of_filter_name:
  "map_of (filter (\<lambda>entry. fst entry \<noteq> name) reg) n =
     (if n = name then None else map_of reg n)"
  by (induction reg) auto

lemma clear_names_live:
  "distinct names \<Longrightarrow>
   \<forall>n \<in> set names. \<exists>b m. map_of (m_nameToCaloHitUsageMap s) n = Some (Some b) \<and>
                         heap_get (usageMapHeap s) b = Some m \<Longrightarrow>
   inj_on (map_of (m_nameToCaloHitUsageMap s)) (set names) \<Longrightarrow>
   \<exists>heap'. clear_names s names =
             Some (STATUS_CODE_SUCCESS,
                   s\<lparr>usageMapHeap := heap',
                     m_nameToCaloHitUsageMap :=
                       filter (\<lambda>entry. fst entry \<notin> set names) (m_nameToCaloHitUsageMap s)\<rparr>) \<and>
           (\<forall>b. (\<forall>n \<in> set names. map_of (m_nameToCaloHitUsageMap s) n \<noteq> Some (Some b)) \<longrightarrow>
                heap_get heap' b = heap_get (usageMapHeap s) b)"
proof (induction names arbitrary: s)
  case Nil
  then show ?case
    by (intro exI [of _ "usageMapHeap s"]) simp
next
  case (Cons name names)
  let ?reg = "m_nameToCaloHitUsageMap s"
  obtain b m where b: "map_of ?reg name = Some (Some b)" "heap_get (usageMapHeap s) b = Some m"
    using Cons.prems(2) by auto
  have len: "b < length (usageMapHeap s)"
    using b(2) by (rule heap_get_length)
  let ?s1 = "s\<lparr>usageMapHeap := (usageMapHeap s)[b := None],
               m_nameToCaloHitUsageMap := filter (\<lambda>entry. fst entry \<noteq> name) ?reg\<rparr>"
  have same: "\<forall>n \<in> set names. map_of (m_nameToCaloHitUsageMap ?s1) n = map_of ?reg n"
    using Cons.prems(1) by (auto simp: map_of_filter_name)
  have live1: "\<forall>n \<in> set names. \<exists>b' m'. map_of (m_nameToCaloHitUsageMap ?s1) n = Some (Some b') \<and>
                         heap_get (usageMapHeap ?s1) b' = Some m'"
  proof
    fix n assume n: "n \<in> set names"
    then obtain b' m' where b': "map_of ?reg n = Some (Some b')" "heap_get (usageMapHeap s) b' = Some m'"
      using Cons.prems(2) by auto
    have "n \<noteq> name"
      using n Cons.prems(1) by auto
    then have "map_of ?reg n \<noteq> map_of ?reg name"
      using Cons.prems(3) n by (auto simp: inj_on_def)
    then have "b' \<noteq> b"
      using b b' by auto
    then show "\<exists>b' m'. map_of (m_nameToCaloHitUsageMap ?s1) n = Some (Some b') \<and>
                       heap_get (usageMapHeap ?s1) b' = Some m'"
      using b' same n len by (simp add: heap_get_update)
  qed
  have inj1: "inj_on (map_of (m_nameToCaloHitUsageMap ?s1)) (set names)"
    using Cons.prems(3) same by (auto simp: inj_on_def)
  have "\<exists>heap'. clear_names ?s1 names =
             Some (STATUS_CODE_SUCCESS,
                   ?s1\<lparr>usageMapHeap := heap',
                       m_nameToCaloHitUsageMap :=
                         filter (\<lambda>entry. fst entry \<notin> set names) (m_nameToCaloHitUsageMap ?s1)\<rparr>) \<and>
           (\<forall>b. (\<forall>n \<in> set names. map_of (m_nameToCaloHitUsageMap ?s1) n \<noteq> Some (Some b)) \<longrightarrow>
                heap_get heap' b = heap_get (usageMapHeap ?s1) b)"
    using Cons.prems(1) live1 inj1 by (intro Cons.IH) auto
  then obtain heap' where
    run: "clear_names ?s1 names =
             Some (STATUS_CODE_SUCCESS,
                   ?s1\<lparr>usageMapHeap := heap',
                       m_nameToCaloHitUsageMap :=
                         filter (\<lambda>entry. fst entry \<notin> set names) (m_nameToCaloHitUsageMap ?s1)\<rparr>)" and
    rest: "\<forall>b. (\<forall>n \<in> set names. map_of (m_nameToCaloHitUsageMap ?s1) n \<noteq> Some (Some b)) \<longrightarrow>
                heap_get heap' b = heap_get (usageMapHeap ?s1) b"
    by blast
  have filt: "filter (\<lambda>entry. fst entry \<notin> set names) (filter (\<lambda>entry. fst entry \<noteq> name) ?reg) =
              filter (\<lambda>entry. fst entry \<notin> set (name # names)) ?reg"
    by (induction ?reg) auto
  have "clear_names s (name # names) =
          Some (STATUS_CODE_SUCCESS,
                s\<lparr>usageMapHeap := heap',
                  m_nameToCaloHitUsageMap :=
                    filter (\<lambda>entry. fst entry \<notin> set (name # names)) ?reg\<rparr>)"
    using b run filt by (simp add: heap_delete_def)
  moreover have "\<forall>b'. (\<forall>n \<in> set (name # names). map_of ?reg n \<noteq> Some (Some b')) \<longrightarrow>
                heap_get heap' b' = heap_get (usageMapHeap s) b'"
  proof (intro allI impI)
    fix b' assume out: "\<forall>n \<in> set (name # names). map_of ?reg n \<noteq> Some (Some b')"
    then have "b' \<noteq> b"
      using b(1) by auto
    moreover have "\<forall>n \<in> set names. map_of (m_nameToCaloHitUsageMap ?s1) n \<noteq> Some (Some b')"
      using out same by auto
    ultimately show "heap_get heap' b' = heap_get (usageMapHeap s) b'"
      using rest len by (simp add: heap_get_update)
  qed
  ultimately show ?case
    by blast
qed

lemma word_depth_two: "2 \<le> unat (n :: 32 word) \<Longrightarrow> n \<noteq> 0 \<and> n \<noteq> 1"
  by (auto simp: unat_eq_0)

text \<open>
  C4. \<^verbatim>\<open>ApplyCaloHitUsageMap\<close> at depth \<open>\<ge> 2\<close>, for a name registered with a live usage
  map (distinct keys), with the top of the parent stack on a live map and a nesting level
  open. If a key of the named map is missing from the parent map, the call returns
  \<^verbatim>\<open>STATUS_CODE_FAILURE\<close>. Otherwise, when the names of the level being closed are
  distinct and registered with distinct live maps, none of them the parent (the parent
  belongs to an outer level), the call succeeds: the parent is popped off the stack and
  is current, it has its old keys, holds \<open>value\<close> for every entry \<open>(hit, value)\<close> of the
  named map and its old value elsewhere; the registry has lost exactly the names of the
  closed level, all of them and not only the applied one; that level is gone from the
  history and the depth is one less.
\<close>

theorem C4_ApplyCaloHitUsageMap_nested:
  assumes "2 \<le> unat (m_nReclusteringProcesses s)"
    and "map_of (m_nameToCaloHitUsageMap s) name = Some (Some a)"
    and "heap_get (usageMapHeap s) a = Some usageMap"
    and "distinct (map fst usageMap)"
    and "m_parentCaloHitUsageMaps s \<noteq> []"
    and "last (m_parentCaloHitUsageMaps s) = Some c"
    and "heap_get (usageMapHeap s) c = Some parentMap"
    and "m_nestedUsageMapNames s \<noteq> []"
  shows "(\<not> fst ` set usageMap \<subseteq> fst ` set parentMap \<longrightarrow>
            (\<exists>s'. ApplyCaloHitUsageMap s name = Some (STATUS_CODE_FAILURE, s'))) \<and>
         (fst ` set usageMap \<subseteq> fst ` set parentMap \<and>
          distinct (last (m_nestedUsageMapNames s)) \<and>
          (\<forall>n \<in> set (last (m_nestedUsageMapNames s)).
              \<exists>b m. map_of (m_nameToCaloHitUsageMap s) n = Some (Some b) \<and>
                    heap_get (usageMapHeap s) b = Some m \<and> b \<noteq> c) \<and>
          inj_on (map_of (m_nameToCaloHitUsageMap s)) (set (last (m_nestedUsageMapNames s))) \<longrightarrow>
            (\<exists>s' merged.
               ApplyCaloHitUsageMap s name = Some (STATUS_CODE_SUCCESS, s') \<and>
               m_pCurrentUsageMap s' = Some c \<and>
               m_parentCaloHitUsageMaps s' = butlast (m_parentCaloHitUsageMaps s) \<and>
               heap_get (usageMapHeap s') c = Some merged \<and>
               map fst merged = map fst parentMap \<and>
               (\<forall>(hit, value) \<in> set usageMap. map_of merged hit = Some value) \<and>
               (\<forall>k. k \<notin> fst ` set usageMap \<longrightarrow> map_of merged k = map_of parentMap k) \<and>
               m_nameToCaloHitUsageMap s' =
                 filter (\<lambda>entry. fst entry \<notin> set (last (m_nestedUsageMapNames s)))
                        (m_nameToCaloHitUsageMap s) \<and>
               m_nestedUsageMapNames s' = butlast (m_nestedUsageMapNames s) \<and>
               m_nReclusteringProcesses s' = m_nReclusteringProcesses s - 1 \<and>
               caloHits s' = caloHits s))"
proof -
  let ?s2 = "s\<lparr>m_nReclusteringProcesses := m_nReclusteringProcesses s - 1,
               m_pCurrentUsageMap := last (m_parentCaloHitUsageMaps s),
               m_parentCaloHitUsageMaps := butlast (m_parentCaloHitUsageMaps s)\<rparr>"
  have depth: "m_nReclusteringProcesses s \<noteq> 0" "m_nReclusteringProcesses s \<noteq> 1"
    using assms(1) word_depth_two by auto
  obtain parent parents where ps: "m_parentCaloHitUsageMaps s = parent # parents"
    using assms(5) by (cases "m_parentCaloHitUsageMaps s") auto
  obtain level levels where ls: "m_nestedUsageMapNames s = level # levels"
    using assms(8) by (cases "m_nestedUsageMapNames s") auto
  have cur2: "m_pCurrentUsageMap ?s2 = Some c"
    using assms(6) by simp
  have cell2: "heap_get (usageMapHeap ?s2) c = Some parentMap"
    using assms(7) by simp
  have unfold: "ApplyCaloHitUsageMap s name =
      (case merge_into_current ?s2 usageMap of
         None \<Rightarrow> None
       | Some (rc, s3) \<Rightarrow>
           if rc \<noteq> STATUS_CODE_SUCCESS then Some (rc, s3)
           else
             (case ClearMostRecentCaloHitUsageMaps s3 of
                None \<Rightarrow> None
              | Some (rc', s4) \<Rightarrow>
                  if rc' \<noteq> STATUS_CODE_SUCCESS then Some (rc', s4)
                  else Some (STATUS_CODE_SUCCESS, s4)))"
    using depth assms(2,3) ps
    by (simp add: ApplyCaloHitUsageMap_def deref_def)
  show ?thesis
  proof (intro conjI impI)
    assume "\<not> fst ` set usageMap \<subseteq> fst ` set parentMap"
    then obtain s' where "merge_into_current ?s2 usageMap = Some (STATUS_CODE_FAILURE, s')"
      using merge_into_current_missing [OF cur2 cell2] by blast
    then show "\<exists>s'. ApplyCaloHitUsageMap s name = Some (STATUS_CODE_FAILURE, s')"
      using unfold by simp
  next
    assume ok: "fst ` set usageMap \<subseteq> fst ` set parentMap \<and>
          distinct (last (m_nestedUsageMapNames s)) \<and>
          (\<forall>n \<in> set (last (m_nestedUsageMapNames s)).
              \<exists>b m. map_of (m_nameToCaloHitUsageMap s) n = Some (Some b) \<and>
                    heap_get (usageMapHeap s) b = Some m \<and> b \<noteq> c) \<and>
          inj_on (map_of (m_nameToCaloHitUsageMap s)) (set (last (m_nestedUsageMapNames s)))"
    let ?names = "last (m_nestedUsageMapNames s)"
    obtain merged where
      merge: "merge_into_current ?s2 usageMap =
                Some (STATUS_CODE_SUCCESS,
                      ?s2\<lparr>usageMapHeap := (usageMapHeap ?s2)[c := Some merged]\<rparr>)" and
      keys: "map fst merged = map fst parentMap" and
      vals: "\<forall>k. map_of merged k =
                  (case map_of usageMap k of None \<Rightarrow> map_of parentMap k | Some v \<Rightarrow> Some v)"
      using merge_into_current_all_present [OF cur2 cell2 _ assms(4)] ok by blast
    let ?s3 = "?s2\<lparr>usageMapHeap := (usageMapHeap ?s2)[c := Some merged]\<rparr>"
    have len: "c < length (usageMapHeap s)"
      using assms(7) by (rule heap_get_length)
    have live3: "\<forall>n \<in> set ?names.
                   \<exists>b m. map_of (m_nameToCaloHitUsageMap ?s3) n = Some (Some b) \<and>
                         heap_get (usageMapHeap ?s3) b = Some m"
    proof
      fix n assume "n \<in> set ?names"
      then obtain b m where "map_of (m_nameToCaloHitUsageMap s) n = Some (Some b)"
          "heap_get (usageMapHeap s) b = Some m" "b \<noteq> c"
        using ok by blast
      then show "\<exists>b m. map_of (m_nameToCaloHitUsageMap ?s3) n = Some (Some b) \<and>
                       heap_get (usageMapHeap ?s3) b = Some m"
        using len by (simp add: heap_get_update)
    qed
    have inj3: "inj_on (map_of (m_nameToCaloHitUsageMap ?s3)) (set ?names)"
      using ok by simp
    obtain heap' where
      clear: "clear_names ?s3 ?names =
                Some (STATUS_CODE_SUCCESS,
                      ?s3\<lparr>usageMapHeap := heap',
                          m_nameToCaloHitUsageMap :=
                            filter (\<lambda>entry. fst entry \<notin> set ?names) (m_nameToCaloHitUsageMap ?s3)\<rparr>)" and
      rest: "\<forall>b. (\<forall>n \<in> set ?names. map_of (m_nameToCaloHitUsageMap ?s3) n \<noteq> Some (Some b)) \<longrightarrow>
                  heap_get heap' b = heap_get (usageMapHeap ?s3) b"
      using clear_names_live [of ?names ?s3, OF _ live3 inj3] ok by blast
    let ?s4 = "?s3\<lparr>usageMapHeap := heap',
                  m_nameToCaloHitUsageMap :=
                    filter (\<lambda>entry. fst entry \<notin> set ?names) (m_nameToCaloHitUsageMap s),
                  m_nestedUsageMapNames := butlast (m_nestedUsageMapNames s)\<rparr>"
    have "\<forall>n \<in> set ?names. map_of (m_nameToCaloHitUsageMap ?s3) n \<noteq> Some (Some c)"
      using ok by auto
    then have "heap_get heap' c = heap_get (usageMapHeap ?s3) c"
      using rest by blast
    then have cell4: "heap_get heap' c = Some merged"
      using len by (simp add: heap_get_update)
    have "ClearMostRecentCaloHitUsageMaps ?s3 = Some (STATUS_CODE_SUCCESS, ?s4)"
      using ls clear by (simp add: ClearMostRecentCaloHitUsageMaps_def)
    then have run: "ApplyCaloHitUsageMap s name = Some (STATUS_CODE_SUCCESS, ?s4)"
      using unfold merge by simp
    have written: "\<forall>(hit, value) \<in> set usageMap. map_of merged hit = Some value"
      using vals assms(4) by auto
    have kept: "\<forall>k. k \<notin> fst ` set usageMap \<longrightarrow> map_of merged k = map_of parentMap k"
      using vals by (auto simp: map_of_eq_None_iff [symmetric])
    show "\<exists>s' merged.
               ApplyCaloHitUsageMap s name = Some (STATUS_CODE_SUCCESS, s') \<and>
               m_pCurrentUsageMap s' = Some c \<and>
               m_parentCaloHitUsageMaps s' = butlast (m_parentCaloHitUsageMaps s) \<and>
               heap_get (usageMapHeap s') c = Some merged \<and>
               map fst merged = map fst parentMap \<and>
               (\<forall>(hit, value) \<in> set usageMap. map_of merged hit = Some value) \<and>
               (\<forall>k. k \<notin> fst ` set usageMap \<longrightarrow> map_of merged k = map_of parentMap k) \<and>
               m_nameToCaloHitUsageMap s' =
                 filter (\<lambda>entry. fst entry \<notin> set (last (m_nestedUsageMapNames s)))
                        (m_nameToCaloHitUsageMap s) \<and>
               m_nestedUsageMapNames s' = butlast (m_nestedUsageMapNames s) \<and>
               m_nReclusteringProcesses s' = m_nReclusteringProcesses s - 1 \<and>
               caloHits s' = caloHits s"
      apply (rule exI [of _ ?s4], rule exI [of _ merged])
      using run cell4 keys written kept assms(6) by simp
  qed
qed

lemma sampleHelper2_reached:
  "\<exists>s1 s2. CreateInitialCaloHitUsageMap (initialCaloHitHelper (\<lambda>h. sampleHit)) ''root'' [(0, [1])] =
              Some (STATUS_CODE_SUCCESS, s1) \<and>
            CreateAdditionalCaloHitUsageMap s1 ''branch'' = Some (STATUS_CODE_SUCCESS, s2) \<and>
            CreateInitialCaloHitUsageMap s2 ''child'' [(0, [1])] =
              Some (STATUS_CODE_SUCCESS, sampleHelper2 [(1, False)]) \<and>
            CreateInitialCaloHitUsageMap s2 ''child'' [(3, [5])] =
              Some (STATUS_CODE_SUCCESS, sampleHelper2 [(5, False)])"
  by (simp add: manager_defs sampleHelper2_def)

theorem C4_ApplyCaloHitUsageMap_nested_witness:
  "(2 \<le> unat (m_nReclusteringProcesses (sampleHelper2 [(1, False)])) \<and>
    map_of (m_nameToCaloHitUsageMap (sampleHelper2 [(1, False)])) ''child'' = Some (Some 2) \<and>
    heap_get (usageMapHeap (sampleHelper2 [(1, False)])) 2 = Some [(1, False)] \<and>
    distinct (map fst [(1 :: nat, False)]) \<and>
    m_parentCaloHitUsageMaps (sampleHelper2 [(1, False)]) \<noteq> [] \<and>
    last (m_parentCaloHitUsageMaps (sampleHelper2 [(1, False)])) = Some 1 \<and>
    heap_get (usageMapHeap (sampleHelper2 [(1, False)])) 1 = Some [(1, True)] \<and>
    m_nestedUsageMapNames (sampleHelper2 [(1, False)]) \<noteq> [] \<and>
    fst ` set [(1 :: nat, False)] \<subseteq> fst ` set [(1 :: nat, True)] \<and>
    distinct (last (m_nestedUsageMapNames (sampleHelper2 [(1, False)]))) \<and>
    last (m_nestedUsageMapNames (sampleHelper2 [(1, False)])) = [''child''] \<and>
    (2 :: nat) \<noteq> 1 \<and>
    inj_on (map_of (m_nameToCaloHitUsageMap (sampleHelper2 [(1, False)])))
           (set (last (m_nestedUsageMapNames (sampleHelper2 [(1, False)])))) \<and>
    \<not> fst ` set [(5 :: nat, False)] \<subseteq> fst ` set [(1 :: nat, True)]) \<and>
   (\<exists>s' merged.
      ApplyCaloHitUsageMap (sampleHelper2 [(1, False)]) ''child'' = Some (STATUS_CODE_SUCCESS, s') \<and>
      m_pCurrentUsageMap s' = Some 1 \<and>
      m_parentCaloHitUsageMaps s' = [] \<and>
      heap_get (usageMapHeap s') 1 = Some merged \<and>
      map fst merged = [1] \<and> map_of merged 1 = Some False \<and>
      m_nameToCaloHitUsageMap s' = [(''root'', Some 0), (''branch'', Some 1)] \<and>
      m_nestedUsageMapNames s' = [[''root'', ''branch'']] \<and>
      m_nReclusteringProcesses s' = 1) \<and>
   (\<exists>s'. ApplyCaloHitUsageMap (sampleHelper2 [(5, False)]) ''child'' =
           Some (STATUS_CODE_FAILURE, s'))"
proof -
  let ?s = "sampleHelper2 [(1, False)]"
  let ?t = "sampleHelper2 [(5, False)]"
  have h1: "2 \<le> unat (m_nReclusteringProcesses ?s)"
    and h2: "map_of (m_nameToCaloHitUsageMap ?s) ''child'' = Some (Some 2)"
    and h3: "heap_get (usageMapHeap ?s) 2 = Some [(1, False)]"
    and h5: "m_parentCaloHitUsageMaps ?s \<noteq> []"
    and h6: "last (m_parentCaloHitUsageMaps ?s) = Some 1"
    and h7: "heap_get (usageMapHeap ?s) 1 = Some [(1, True)]"
    and h8: "m_nestedUsageMapNames ?s \<noteq> []"
    by (simp_all add: sampleHelper2_def heap_get_def)
  have h4: "distinct (map fst [(1 :: nat, False)])"
    by simp
  have t1: "2 \<le> unat (m_nReclusteringProcesses ?t)"
    and t2: "map_of (m_nameToCaloHitUsageMap ?t) ''child'' = Some (Some 2)"
    and t3: "heap_get (usageMapHeap ?t) 2 = Some [(5, False)]"
    and t5: "m_parentCaloHitUsageMaps ?t \<noteq> []"
    and t6: "last (m_parentCaloHitUsageMaps ?t) = Some 1"
    and t7: "heap_get (usageMapHeap ?t) 1 = Some [(1, True)]"
    and t8: "m_nestedUsageMapNames ?t \<noteq> []"
    by (simp_all add: sampleHelper2_def heap_get_def)
  have t4: "distinct (map fst [(5 :: nat, False)])"
    by simp
  have sub: "fst ` set [(1 :: nat, False)] \<subseteq> fst ` set [(1 :: nat, True)]"
    and nsub: "\<not> fst ` set [(5 :: nat, False)] \<subseteq> fst ` set [(1 :: nat, True)]"
    by simp_all
  have level: "last (m_nestedUsageMapNames ?s) = [''child'']"
    and reg: "m_nameToCaloHitUsageMap ?s = [(''root'', Some 0), (''branch'', Some 1), (''child'', Some 2)]"
    and stack: "m_parentCaloHitUsageMaps ?s = [Some 1]"
    and hist: "m_nestedUsageMapNames ?s = [[''root'', ''branch''], [''child'']]"
    and depth: "m_nReclusteringProcesses ?s = 2"
    by (simp_all add: sampleHelper2_def)
  have g1: "distinct (last (m_nestedUsageMapNames ?s))"
    unfolding level by simp
  have g2: "\<forall>n \<in> set (last (m_nestedUsageMapNames ?s)).
              \<exists>b m. map_of (m_nameToCaloHitUsageMap ?s) n = Some (Some b) \<and>
                    heap_get (usageMapHeap ?s) b = Some m \<and> b \<noteq> 1"
    unfolding level by (simp add: sampleHelper2_def heap_get_def)
  have g3: "inj_on (map_of (m_nameToCaloHitUsageMap ?s)) (set (last (m_nestedUsageMapNames ?s)))"
    unfolding level by simp
  note ok = C4_ApplyCaloHitUsageMap_nested [OF h1 h2 h3 h4 h5 h6 h7 h8]
  note bad = C4_ApplyCaloHitUsageMap_nested [OF t1 t2 t3 t4 t5 t6 t7 t8]
  from ok sub g1 g2 g3 obtain s' merged where r:
    "ApplyCaloHitUsageMap ?s ''child'' = Some (STATUS_CODE_SUCCESS, s')"
    "m_pCurrentUsageMap s' = Some 1"
    "m_parentCaloHitUsageMaps s' = butlast (m_parentCaloHitUsageMaps ?s)"
    "heap_get (usageMapHeap s') 1 = Some merged"
    "map fst merged = map fst [(1 :: nat, True)]"
    "\<forall>(hit, value) \<in> set [(1 :: nat, False)]. map_of merged hit = Some value"
    "m_nameToCaloHitUsageMap s' =
       filter (\<lambda>entry. fst entry \<notin> set (last (m_nestedUsageMapNames ?s))) (m_nameToCaloHitUsageMap ?s)"
    "m_nestedUsageMapNames s' = butlast (m_nestedUsageMapNames ?s)"
    "m_nReclusteringProcesses s' = m_nReclusteringProcesses ?s - 1"
    by blast
  have 1: "\<exists>s' merged.
      ApplyCaloHitUsageMap ?s ''child'' = Some (STATUS_CODE_SUCCESS, s') \<and>
      m_pCurrentUsageMap s' = Some 1 \<and>
      m_parentCaloHitUsageMaps s' = [] \<and>
      heap_get (usageMapHeap s') 1 = Some merged \<and>
      map fst merged = [1] \<and> map_of merged 1 = Some False \<and>
      m_nameToCaloHitUsageMap s' = [(''root'', Some 0), (''branch'', Some 1)] \<and>
      m_nestedUsageMapNames s' = [[''root'', ''branch'']] \<and>
      m_nReclusteringProcesses s' = 1"
    apply (rule exI [of _ s'], rule exI [of _ merged])
    using r unfolding level reg stack hist depth by simp
  have 2: "\<exists>s'. ApplyCaloHitUsageMap ?t ''child'' = Some (STATUS_CODE_FAILURE, s')"
    using bad nsub by blast
  show ?thesis
    using h1 h2 h3 h4 h5 h6 h7 h8 sub g1 level g3 nsub 1 2 by simp
qed

lemma f_le_not_less: "f_le x y \<Longrightarrow> \<not> f_less y x"
  by (cases x; cases y) (auto simp: f_le_def)

lemma ApplySimpleIsolationScheme_hit:
  "ApplySimpleIsolationScheme settings v hits h =
     (if h \<in> set v \<and> f_less (m_densityWeight (hits h)) (isolationDensityWeightCut settings (hits h))
      then (hits h)\<lparr>m_isIsolated := True\<rparr> else hits h)"
proof (induction v arbitrary: hits)
  case Nil
  show ?case by simp
next
  case (Cons p v)
  show ?case
    by (auto simp: Cons.IH isolationDensityWeightCut_def)
qed

text \<open>
  C10. \<^verbatim>\<open>ApplySimpleIsolationScheme\<close> never clears an isolated flag; a hit whose density
  weight is greater than or equal to the cut of its type is left exactly as it was; and
  for every hit, the availability flag, the density weight, the surrounding energy and
  the possible-MIP flag (and position and type) are as before.
\<close>

theorem C10_ApplySimpleIsolationScheme:
  "(m_isIsolated (hits h) \<longrightarrow> m_isIsolated (ApplySimpleIsolationScheme settings v hits h)) \<and>
   (f_le (isolationDensityWeightCut settings (hits h)) (m_densityWeight (hits h)) \<longrightarrow>
      ApplySimpleIsolationScheme settings v hits h = hits h) \<and>
   m_isAvailable (ApplySimpleIsolationScheme settings v hits h) = m_isAvailable (hits h) \<and>
   m_densityWeight (ApplySimpleIsolationScheme settings v hits h) = m_densityWeight (hits h) \<and>
   m_surroundingEnergy (ApplySimpleIsolationScheme settings v hits h) = m_surroundingEnergy (hits h) \<and>
   m_isPossibleMip (ApplySimpleIsolationScheme settings v hits h) = m_isPossibleMip (hits h) \<and>
   m_hitType (ApplySimpleIsolationScheme settings v hits h) = m_hitType (hits h) \<and>
   m_positionVector (ApplySimpleIsolationScheme settings v hits h) = m_positionVector (hits h)"
  using f_le_not_less
          [of "isolationDensityWeightCut settings (hits h)" "m_densityWeight (hits h)"]
  by (auto simp: ApplySimpleIsolationScheme_hit)

theorem C10_ApplySimpleIsolationScheme_witness:
  "(m_isIsolated (sampleHits 1) \<and>
    f_le (isolationDensityWeightCut (sampleSettings 2) (sampleHits 1))
         (m_densityWeight (sampleHits 1))) \<and>
   m_isIsolated (ApplySimpleIsolationScheme (sampleSettings 2) [1, 2] sampleHits 1) \<and>
   ApplySimpleIsolationScheme (sampleSettings 2) [1, 2] sampleHits 1 = sampleHits 1 \<and>
   m_isAvailable (ApplySimpleIsolationScheme (sampleSettings 2) [1, 2] sampleHits 2) \<and>
   m_densityWeight (ApplySimpleIsolationScheme (sampleSettings 2) [1, 2] sampleHits 2) = Finite 1"
proof -
  have iso: "m_isIsolated (sampleHits 1)"
    by (simp add: sampleHits_def)
  have heavy: "f_le (isolationDensityWeightCut (sampleSettings 2) (sampleHits 1))
                    (m_densityWeight (sampleHits 1))"
    by (simp add: sampleHits_def sampleSettings_def sampleHit_def isolationDensityWeightCut_def
                  f_le_def)
  have two: "m_isAvailable (sampleHits 2)" "m_densityWeight (sampleHits 2) = Finite 1"
    by (simp_all add: sampleHits_def sampleHit_def)
  show ?thesis
    using iso heavy two
          C10_ApplySimpleIsolationScheme [of sampleHits 1 "sampleSettings 2" "[1, 2]"]
          C10_ApplySimpleIsolationScheme [of sampleHits 2 "sampleSettings 2" "[1, 2]"]
    by simp
qed

lemma float32_round_0: "float32_round 0 = Finite 0"
  by (simp add: float32_round_def)

lemma float32_round_1: "float32_round 1 = Finite 1"
  by (simp add: float32_round_def Let_def powr_minus round_half_even_def)

lemma floor_log2_100: "\<lfloor>log 2 (100::real)\<rfloor> = 6"
  by (simp add: floor_log_eq_powr_iff)

lemma float32_round_100: "float32_round 100 = Finite 100"
  by (simp add: float32_round_def Let_def floor_log2_100 powr_minus round_half_even_def)

lemma round_half_even_nonneg: "0 \<le> q \<Longrightarrow> 0 \<le> round_half_even q"
  by (auto simp: round_half_even_def Let_def)

lemma f_nonneg_round: "0 \<le> x \<Longrightarrow> f_nonneg (float32_round x)"
  by (auto simp: float32_round_def Let_def round_half_even_nonneg)

lemma f_nonneg_not_less: "f_nonneg v \<Longrightarrow> \<not> f_less v (Finite 0)"
  by (cases v) auto

lemma round_not_negative: "0 \<le> x \<Longrightarrow> \<not> f_less (float32_round x) (Finite 0)"
  by (simp add: f_nonneg_round f_nonneg_not_less)

lemma f_nonneg_add: "f_nonneg u \<Longrightarrow> f_nonneg v \<Longrightarrow> f_nonneg (f_add u v)"
  by (cases u; cases v) (auto simp: f_nonneg_round)

lemma f_nonneg_sqrt: "f_nonneg u \<Longrightarrow> f_nonneg (f_sqrt u)"
  by (cases u) (auto simp: f_nonneg_round)

lemma f_nonneg_square: "f_nonneg (f_mul (Finite a) (Finite a))"
  by (simp add: f_nonneg_round)

lemma f_nonneg_GetMagnitude:
  "v = \<lparr> m_x = Finite x, m_y = Finite y, m_z = Finite z \<rparr> \<Longrightarrow> f_nonneg (GetMagnitude v)"
  by (simp add: GetMagnitude_def GetMagnitudeSquared_def
                f_nonneg_sqrt f_nonneg_add f_nonneg_square del: f_mul.simps f_add.simps f_sqrt.simps)

lemma separation_squared_not_negative: "\<not> f_less (f_mul m m) (Finite 0)"
  by (cases m) (auto simp: round_not_negative)

lemma power_loop_zero:
  "power_loop k (Finite 0) (Finite a) = Finite (if k = 0 then a else 0)"
  by (induction k arbitrary: a) (auto simp: float32_round_0)

lemma zero_over_magnitude:
  "f_nonneg m \<Longrightarrow> m \<noteq> Finite 0 \<Longrightarrow> f_div (Finite 0) m = Finite 0"
  by (cases m) (auto simp: float32_round_0)

lemma coincident_hit_throws:
  assumes "1 \<le> m_densityWeightPower settings"
    and "m_positionVector (hits H) = \<lparr> m_x = Finite x, m_y = Finite y, m_z = Finite z \<rparr>"
    and "GetMagnitude (m_positionVector (hits H)) \<noteq> Finite 0"
    and "H' \<noteq> H"
    and "m_positionVector (hits H') = m_positionVector (hits H)"
  shows "density_loop settings hits H (H' # rest) acc = Inl STATUS_CODE_FAILURE"
proof -
  let ?p = "m_positionVector (hits H)"
  let ?zero = "\<lparr> m_x = Finite 0, m_y = Finite 0, m_z = Finite 0 \<rparr>"
  have diff: "vector_minus ?p (m_positionVector (hits H')) = ?zero"
    using assms(2,5) by (simp add: vector_minus_def f_sub_def float32_round_0)
  have near: "\<not> f_less (f_mul (m_caloHitMaxSeparation settings) (m_caloHitMaxSeparation settings))
                        (GetMagnitudeSquared ?zero)"
    using separation_squared_not_negative by (simp add: GetMagnitudeSquared_def float32_round_0)
  have cross: "GetMagnitude (GetCrossProduct ?p ?zero) = Finite 0"
    using assms(2)
    by (simp add: GetCrossProduct_def GetMagnitude_def GetMagnitudeSquared_def f_sub_def
                  float32_round_0)
  have r: "f_div (Finite 0) (GetMagnitude ?p) = Finite 0"
    using f_nonneg_GetMagnitude [OF assms(2)] assms(3) by (rule zero_over_magnitude)
  have rN: "power_loop (m_densityWeightPower settings) (Finite 0) (Finite 1) = Finite 0"
    using assms(1) by (simp add: power_loop_zero)
  show ?thesis
    using assms(4) diff near cross r rN by (simp add: Let_def)
qed

lemma density_loop_coincident:
  assumes "1 \<le> m_densityWeightPower settings"
    and "m_positionVector (hits H) = \<lparr> m_x = Finite x, m_y = Finite y, m_z = Finite z \<rparr>"
    and "GetMagnitude (m_positionVector (hits H)) \<noteq> Finite 0"
    and "H' \<noteq> H"
    and "m_positionVector (hits H') = m_positionVector (hits H)"
  shows "H' \<in> set hitList \<Longrightarrow> density_loop settings hits H hitList acc = Inl STATUS_CODE_FAILURE"
proof (induction hitList arbitrary: acc)
  case Nil
  then show ?case by simp
next
  case (Cons other rest)
  show ?case
  proof (cases "other = H'")
    case True
    then show ?thesis
      using coincident_hit_throws [OF assms] by simp
  next
    case False
    then have "H' \<in> set rest"
      using Cons.prems by simp
    then have "\<And>acc'. density_loop settings hits H rest acc' = Inl STATUS_CODE_FAILURE"
      by (rule Cons.IH)
    then show ?thesis
      by (auto simp: Let_def)
  qed
qed

lemma float32_round_underflow:
  assumes "0 < x" "x < 2 powr (- 150)"
  shows "float32_round x = Finite 0"
proof -
  have "log 2 x < - 150"
    using assms by (simp add: log_less_iff)
  then have "\<lfloor>log 2 x\<rfloor> < - 126"
    by linarith
  then have e: "max \<lfloor>log 2 \<bar>x\<bar>\<rfloor> (- 126) = - 126"
    using assms(1) by simp
  have "x / 2 powr (- 149) < 2 powr (- 150) / 2 powr (- 149)"
    using assms(2) by (simp add: divide_strict_right_mono)
  also have "\<dots> = 1 / 2"
    by (simp add: powr_minus field_simps)
  finally have q: "x / 2 powr (- 149) < 1 / 2" .
  have q0: "0 < x / 2 powr (- 149)"
    using assms(1) by simp
  have fl: "\<lfloor>x / 2 powr (- 149)\<rfloor> = 0"
    using q q0 by linarith
  have "round_half_even (x / 2 powr (- 149)) = 0"
    using q fl by (simp add: round_half_even_def)
  then show ?thesis
    using assms(1) e by (simp add: float32_round_def Let_def)
qed

lemma tiny_square_underflows: "float32_round (tinyCoordinate * tinyCoordinate) = Finite 0"
  by (rule float32_round_underflow) (simp_all add: tinyCoordinate_def powr_minus field_simps)

text \<open>
  The square of a small coordinate underflows: for two coincident hits at
  \<open>(1 / 2 ^ 100, 0, 0)\<close> the computed position magnitude is 0, \<^verbatim>\<open>r\<close> is NaN and the
  function returns NaN without an exception, although the position is not the origin.
\<close>

lemma underflow_returns_NaN:
  "GetMagnitude (m_positionVector (tinyHits 1)) = Finite 0 \<and>
   GetDensityWeightContribution (sampleSettings 2) tinyHits 1 [1, 2] = Inr NaN"
  by (simp add: GetDensityWeightContribution_def sampleSettings_def tinyHits_def
                sampleHit_def Let_def vector_minus_def GetMagnitudeSquared_def GetMagnitude_def
                GetCrossProduct_def f_sub_def numeral_2_eq_2
                float32_round_0 tiny_square_underflows round_not_negative)

text \<open>
  C8, as stated, fails. With \<^verbatim>\<open>densityWeightPower\<close> 0 the inner loop does not run,
  \<^verbatim>\<open>rN\<close> stays 1 and a coincident hit contributes 100 without any exception. And for a hit
  at the origin the position magnitude is 0, \<^verbatim>\<open>r\<close> is \<open>0 / 0\<close>, a NaN, the test
  \<^verbatim>\<open>0 == rN\<close> is false and the contribution is NaN, again without any exception.
\<close>

theorem C8_density_weight_counterexample:
  "m_positionVector (sampleHits 2) = m_positionVector (sampleHits 1) \<and>
   GetDensityWeightContribution (sampleSettings 0) sampleHits 1 [1, 2] = Inr (Finite 100) \<and>
   m_positionVector (originHits 2) = m_positionVector (originHits 1) \<and>
   GetDensityWeightContribution (sampleSettings 2) originHits 1 [1, 2] = Inr NaN"
  by (simp add: GetDensityWeightContribution_def sampleSettings_def sampleHits_def originHits_def
                sampleHit_def Let_def vector_minus_def GetMagnitudeSquared_def GetMagnitude_def
                GetCrossProduct_def f_sub_def numeral_2_eq_2
                float32_round_0 float32_round_1 float32_round_100 round_not_negative)

text \<open>
  C8, amended. When \<^verbatim>\<open>densityWeightPower\<close> is at least 1 and the hit \<open>H\<close> has a finite
  position whose computed magnitude is not 0, a hit list that holds a distinct hit at the
  position of \<open>H\<close> makes \<^verbatim>\<open>GetDensityWeightContribution\<close> throw
  \<^verbatim>\<open>STATUS_CODE_FAILURE\<close>, whatever else the list holds.
\<close>

theorem C8_density_weight_amended:
  assumes "1 \<le> m_densityWeightPower settings"
    and "m_positionVector (hits H) = \<lparr> m_x = Finite x, m_y = Finite y, m_z = Finite z \<rparr>"
    and "GetMagnitude (m_positionVector (hits H)) \<noteq> Finite 0"
    and "H' \<in> set hitList"
    and "H' \<noteq> H"
    and "m_positionVector (hits H') = m_positionVector (hits H)"
  shows "GetDensityWeightContribution settings hits H hitList = Inl STATUS_CODE_FAILURE"
  unfolding GetDensityWeightContribution_def
  using density_loop_coincident [OF assms(1,2,3,5,6) assms(4)] .

theorem C8_density_weight_amended_witness:
  "(1 \<le> m_densityWeightPower (sampleSettings 2) \<and>
    m_positionVector (sampleHits 1) = \<lparr> m_x = Finite 1, m_y = Finite 0, m_z = Finite 0 \<rparr> \<and>
    GetMagnitude (m_positionVector (sampleHits 1)) \<noteq> Finite 0 \<and>
    2 \<in> set [1, 2 :: nat] \<and> (2 :: nat) \<noteq> 1 \<and>
    m_positionVector (sampleHits 2) = m_positionVector (sampleHits 1)) \<and>
   GetDensityWeightContribution (sampleSettings 2) sampleHits 1 [1, 2] = Inl STATUS_CODE_FAILURE"
proof -
  have h1: "1 \<le> m_densityWeightPower (sampleSettings 2)"
    by (simp add: sampleSettings_def)
  have h2: "m_positionVector (sampleHits 1) = \<lparr> m_x = Finite 1, m_y = Finite 0, m_z = Finite 0 \<rparr>"
    by (simp add: sampleHits_def sampleHit_def)
  have h3: "GetMagnitude (m_positionVector (sampleHits 1)) \<noteq> Finite 0"
    unfolding h2 GetMagnitude_def GetMagnitudeSquared_def
    by (simp add: float32_round_0 float32_round_1)
  have h4: "2 \<in> set [1, 2 :: nat]" and h5: "(2 :: nat) \<noteq> 1"
    by simp_all
  have h6: "m_positionVector (sampleHits 2) = m_positionVector (sampleHits 1)"
    by (simp add: sampleHits_def sampleHit_def)
  show ?thesis
    using h1 h2 h3 h4 h5 h6 C8_density_weight_amended [OF h1 h2 h3 h4 h5 h6] by blast
qed

lemma set_hit_list_insert: "set (hit_list_insert h hitList) = insert h (set hitList)"
  by (auto simp: hit_list_insert_def set_insort_key)

lemma collect_unavailable_hits_set:
  "\<forall>h. \<exists>b. IsCaloHitAvailable s h = Some b \<Longrightarrow>
   \<exists>U. collect_unavailable_hits s hitList acc = Some U \<and>
       set U = set acc \<union> {h \<in> set hitList. IsCaloHitAvailable s h = Some False}"
proof (induction hitList arbitrary: acc)
  case Nil
  then show ?case by simp
next
  case (Cons h rest)
  obtain b where b: "IsCaloHitAvailable s h = Some b"
    using Cons.prems by blast
  let ?acc1 = "if \<not> b then hit_list_insert h acc else acc"
  obtain U where U: "collect_unavailable_hits s rest ?acc1 = Some U"
      "set U = set ?acc1 \<union> {h \<in> set rest. IsCaloHitAvailable s h = Some False}"
    using Cons.IH [OF Cons.prems, of ?acc1] by blast
  have "collect_unavailable_hits s (h # rest) acc = Some U"
    using b U(1) by simp
  moreover have "set U = set acc \<union> {h' \<in> set (h # rest). IsCaloHitAvailable s h' = Some False}"
    using b U(2) by (auto simp: set_hit_list_insert)
  ultimately show ?case
    by blast
qed

lemma collect_unavailable_layers_set:
  "\<forall>h. \<exists>b. IsCaloHitAvailable s h = Some b \<Longrightarrow>
   \<exists>U. collect_unavailable_layers s L acc = Some U \<and>
       set U = set acc \<union> {h \<in> hits_of L. IsCaloHitAvailable s h = Some False}"
proof (induction L arbitrary: acc)
  case Nil
  then show ?case by (simp add: hits_of_def)
next
  case (Cons layer L)
  obtain pseudoLayer hitList where layer: "layer = (pseudoLayer, hitList)"
    by (cases layer)
  obtain U1 where U1: "collect_unavailable_hits s hitList acc = Some U1"
      "set U1 = set acc \<union> {h \<in> set hitList. IsCaloHitAvailable s h = Some False}"
    using collect_unavailable_hits_set [OF Cons.prems, of hitList acc] by blast
  obtain U where U: "collect_unavailable_layers s L U1 = Some U"
      "set U = set U1 \<union> {h \<in> hits_of L. IsCaloHitAvailable s h = Some False}"
    using Cons.IH [OF Cons.prems, of U1] by blast
  have "collect_unavailable_layers s (layer # L) acc = Some U"
    using layer U1(1) U(1) by simp
  moreover have "set U = set acc \<union> {h \<in> hits_of (layer # L). IsCaloHitAvailable s h = Some False}"
    using layer U1(2) U(2) by (auto simp: hits_of_def)
  ultimately show ?case
    by blast
qed

lemma IsCaloHitAvailable_defined:
  "m_nReclusteringProcesses s = 0 \<or>
   (\<exists>a m. m_pCurrentUsageMap s = Some a \<and> heap_get (usageMapHeap s) a = Some m) \<Longrightarrow>
   \<exists>b. IsCaloHitAvailable s h = Some b"
  by (auto simp: IsCaloHitAvailable_def deref_def split: option.splits)

text \<open>
  C9. With the availability state \<open>s\<close> fixed and readable (depth 0, or the current
  pointer on a live usage map), and a removal operation that, when it succeeds, leaves
  only hits of the index it was given and none of the discarded ones:
  \<^verbatim>\<open>RemoveUnavailableCaloHits\<close> on a layer index returns, and when it succeeds a second
  call on the resulting index succeeds and returns that same index.
\<close>

theorem C9_RemoveUnavailableCaloHits_idempotent:
  assumes "m_nReclusteringProcesses s = 0 \<or>
           (\<exists>a m. m_pCurrentUsageMap s = Some a \<and> heap_get (usageMapHeap s) a = Some m)"
    and "\<forall>U L L'. remove U L = (STATUS_CODE_SUCCESS, L') \<longrightarrow> hits_of L' \<subseteq> hits_of L - set U"
  shows "\<exists>rc L1. RemoveUnavailableCaloHits remove s L = Some (rc, L1) \<and>
                 (rc = STATUS_CODE_SUCCESS \<longrightarrow>
                    RemoveUnavailableCaloHits remove s L1 = Some (STATUS_CODE_SUCCESS, L1))"
proof -
  have defined: "\<forall>h. \<exists>b. IsCaloHitAvailable s h = Some b"
    using IsCaloHitAvailable_defined [OF assms(1)] by blast
  obtain U where U: "collect_unavailable_layers s L [] = Some U"
      "set U = {h \<in> hits_of L. IsCaloHitAvailable s h = Some False}"
    using collect_unavailable_layers_set [OF defined, of L "[]"] by auto
  show ?thesis
  proof (cases "U = []")
    case True
    then have "RemoveUnavailableCaloHits remove s L = Some (STATUS_CODE_SUCCESS, L)"
      using U(1) by (simp add: RemoveUnavailableCaloHits_def)
    then show ?thesis
      by simp
  next
    case False
    obtain rc L1 where rm: "remove U L = (rc, L1)"
      by (cases "remove U L")
    have first: "RemoveUnavailableCaloHits remove s L = Some (rc, L1)"
      using U(1) False rm by (simp add: RemoveUnavailableCaloHits_def)
    have "RemoveUnavailableCaloHits remove s L1 = Some (STATUS_CODE_SUCCESS, L1)"
      if ok: "rc = STATUS_CODE_SUCCESS"
    proof -
      have sub: "hits_of L1 \<subseteq> hits_of L - set U"
        using assms(2) rm ok by blast
      obtain U1 where U1: "collect_unavailable_layers s L1 [] = Some U1"
          "set U1 = {h \<in> hits_of L1. IsCaloHitAvailable s h = Some False}"
        using collect_unavailable_layers_set [OF defined, of L1 "[]"] by auto
      have "set U1 = {}"
        using U1(2) U(2) sub by auto
      then show ?thesis
        using U1(1) by (simp add: RemoveUnavailableCaloHits_def)
    qed
    then show ?thesis
      using first by blast
  qed
qed

lemma hits_of_OrderedCaloHitList_Remove:
  "hits_of (snd (OrderedCaloHitList_Remove U L)) = hits_of L - set U"
  by (induction L) (auto simp: OrderedCaloHitList_Remove_def hits_of_def)

lemma OrderedCaloHitList_Remove_contract:
  "OrderedCaloHitList_Remove U L = (STATUS_CODE_SUCCESS, L') \<Longrightarrow> hits_of L' \<subseteq> hits_of L - set U"
  using hits_of_OrderedCaloHitList_Remove [of U L] by simp

theorem C9_RemoveUnavailableCaloHits_idempotent_witness:
  "(m_nReclusteringProcesses sampleHelper1 = 0 \<or>
    (\<exists>a m. m_pCurrentUsageMap sampleHelper1 = Some a \<and>
           heap_get (usageMapHeap sampleHelper1) a = Some m)) \<and>
   OrderedCaloHitList_Remove [1, 3] [(0, [1, 2]), (1, [3])] =
     (STATUS_CODE_SUCCESS, [(0, [2]), (1, [])]) \<and>
   hits_of [(0, [2]), (1, [])] \<subseteq> hits_of [(0, [1, 2]), (1, [3])] - set [1, 3] \<and>
   RemoveUnavailableCaloHits OrderedCaloHitList_Remove sampleHelper1 [(0, [1, 2]), (1, [3])] =
     Some (STATUS_CODE_SUCCESS, [(0, [2]), (1, [])]) \<and>
   RemoveUnavailableCaloHits OrderedCaloHitList_Remove sampleHelper1 [(0, [2]), (1, [])] =
     Some (STATUS_CODE_SUCCESS, [(0, [2]), (1, [])])"
proof -
  have readable: "m_nReclusteringProcesses sampleHelper1 = 0 \<or>
      (\<exists>a m. m_pCurrentUsageMap sampleHelper1 = Some a \<and>
             heap_get (usageMapHeap sampleHelper1) a = Some m)"
    by (simp add: sampleHelper1_def heap_get_def)
  have contract: "\<forall>U L L'. OrderedCaloHitList_Remove U L = (STATUS_CODE_SUCCESS, L') \<longrightarrow>
                    hits_of L' \<subseteq> hits_of L - set U"
    using OrderedCaloHitList_Remove_contract by blast
  have first: "RemoveUnavailableCaloHits OrderedCaloHitList_Remove sampleHelper1
                 [(0, [1, 2]), (1, [3])] = Some (STATUS_CODE_SUCCESS, [(0, [2]), (1, [])])"
    by (simp add: RemoveUnavailableCaloHits_def IsCaloHitAvailable_def deref_def heap_get_def
                  sampleHelper1_def hit_list_insert_def OrderedCaloHitList_Remove_def)
  have second: "RemoveUnavailableCaloHits OrderedCaloHitList_Remove sampleHelper1
                 [(0, [2]), (1, [])] = Some (STATUS_CODE_SUCCESS, [(0, [2]), (1, [])])"
    using C9_RemoveUnavailableCaloHits_idempotent
            [OF readable contract, of "[(0, [1, 2]), (1, [3])]"] first
    by simp
  have removal: "OrderedCaloHitList_Remove [1, 3] [(0, [1, 2]), (1, [3])] =
                   (STATUS_CODE_SUCCESS, [(0, [2]), (1, [])])"
    by (simp add: OrderedCaloHitList_Remove_def)
  have "hits_of [(0, [2]), (1, [])] \<subseteq> hits_of [(0, [1, 2]), (1, [3])] - set [1, 3]"
    using contract removal by blast
  then show ?thesis
    using readable removal first second by blast
qed

end
